theory Spec2Isabelle
  imports Main "HOL-Library.Sublist"
begin

section \<open>The chat service of the AI tutor backend\<close>

text \<open>
  A shallow embedding of \<^verbatim>\<open>ChatService\<close> (chat.service.ts) and of the one controller
  method that calls it. A JavaScript string whose code units are all below 256 is a
  HOL \<^typ>\<open>string\<close>, the character with code \<open>k\<close> standing for the code unit \<open>k\<close>; strings
  with larger code units are outside the model. Logging has no effect on any result and
  is left out.
\<close>

subsection \<open>Strings\<close>

text \<open>
  \<^verbatim>\<open>String.prototype.toLowerCase\<close> on code units below 256: the letters A to Z and the
  Latin-1 capitals U+00C0 to U+00DE (without the multiplication sign U+00D7) move up by 32.
\<close>

definition toLowerCase_char :: "char \<Rightarrow> char" where
  "toLowerCase_char c =
     (let k = (of_char c :: nat)
      in if (65 \<le> k \<and> k \<le> 90) \<or> (192 \<le> k \<and> k \<le> 222 \<and> k \<noteq> 215)
         then char_of (k + 32) else c)"

definition toLowerCase :: "string \<Rightarrow> string" where
  "toLowerCase s = map toLowerCase_char s"

text \<open>\<^verbatim>\<open>s.includes(p)\<close>: \<open>p\<close> occurs in \<open>s\<close> at some position.\<close>

fun str_includes :: "string \<Rightarrow> string \<Rightarrow> bool" where
  "str_includes [] p = (p = [])"
| "str_includes (c # cs) p = (prefix p (c # cs) \<or> str_includes cs p)"

text \<open>
  \<^verbatim>\<open>String.prototype.trim\<close>: white space and line terminators are removed at both ends.
  Below 256 these are TAB, LF, VT, FF, CR, SP and NBSP.
\<close>

definition isWhiteSpace :: "char \<Rightarrow> bool" where
  "isWhiteSpace c = ((of_char c :: nat) \<in> {9, 10, 11, 12, 13, 32, 160})"

definition trim :: "string \<Rightarrow> string" where
  "trim s = rev (dropWhile isWhiteSpace (rev (dropWhile isWhiteSpace s)))"

text \<open>\<^verbatim>\<open>Array.prototype.join\<close> with a separator.\<close>

fun join :: "string \<Rightarrow> string list \<Rightarrow> string" where
  "join sep [] = []"
| "join sep [x] = x"
| "join sep (x # y # ys) = x @ sep @ join sep (y # ys)"

text \<open>A number in a template literal: its decimal digits.\<close>

fun string_of_nat :: "nat \<Rightarrow> string" where
  "string_of_nat n =
     (if n < 10 then [char_of (48 + n)]
      else string_of_nat (n div 10) @ [char_of (48 + n mod 10)])"

subsection \<open>Provider errors and their classification\<close>

text \<open>
  What a \<^verbatim>\<open>catch\<close> receives: an error object, whose \<^verbatim>\<open>message\<close> may be missing (the
  code reads it with \<^verbatim>\<open>?.\<close> and \<^verbatim>\<open>||\<close>).
\<close>

datatype js_error = Error (message: "string option")

definition isRateLimitError :: "js_error \<Rightarrow> bool" where
  "isRateLimitError error =
     (let message = (case message error of None \<Rightarrow> [] | Some m \<Rightarrow> toLowerCase m)
      in str_includes message ''429''
       \<or> str_includes message ''too many requests''
       \<or> str_includes message ''resource exhausted''
       \<or> str_includes message ''quota''
       \<or> str_includes message ''rate limit'')"

text \<open>
  The specification's reading of the classification: some part of the message equals the
  marker when letter case is ignored, that is when both are put in lower case.
\<close>

definition contains_ignoring_case :: "string \<Rightarrow> string \<Rightarrow> bool" where
  "contains_ignoring_case msg marker =
     (\<exists>before part after. msg = before @ part @ after \<and> toLowerCase part = toLowerCase marker)"

subsection \<open>The model list, the cursor and the fallback loop\<close>

definition GEMINI_MODELS :: "string list" where
  "GEMINI_MODELS = [''gemini-3-flash-preview'', ''gemini-2.5-flash'', ''gemini-2.0-flash'']"

text \<open>The mutable field of the service; it is 0 when the service is constructed.\<close>

record ChatService =
  currentModelIndex :: nat

definition new_ChatService :: ChatService where
  "new_ChatService = \<lparr>currentModelIndex = 0\<rparr>"

text \<open>
  The provider is outside the program:
  \<^verbatim>\<open>genAI.getGenerativeModel({model}).generateContent(prompt)\<close> followed by
  \<^verbatim>\<open>response.text()\<close> takes a model name and a prompt, and either throws or yields the
  text. It may answer differently each time, so it reads and changes a world \<open>'w\<close>.
\<close>

type_synonym 'w provider = "string \<Rightarrow> string \<Rightarrow> 'w \<Rightarrow> (js_error + string) \<times> 'w"

text \<open>
  The \<^verbatim>\<open>for\<close> loop of \<^verbatim>\<open>generateWithFallback\<close>, from counter \<open>i\<close> on, over a list of model
  names. The result is what the call returns (\<open>Inr\<close>) or throws (\<open>Inl\<close>), the service
  and the world afterwards.
\<close>

function fallback_loop ::
  "string list \<Rightarrow> 'w provider \<Rightarrow> string \<Rightarrow> nat \<Rightarrow> nat \<Rightarrow> js_error option \<Rightarrow>
   ChatService \<Rightarrow> 'w \<Rightarrow> (js_error + string) \<times> ChatService \<times> 'w" where
  "fallback_loop models genAI prompt startIndex i lastError this w =
     (if i < length models then
        let modelIndex = (startIndex + i) mod length models;
            modelName = models ! modelIndex
        in (case genAI modelName prompt w of
              (Inr text, w') \<Rightarrow> (Inr text, this\<lparr>currentModelIndex := modelIndex\<rparr>, w')
            | (Inl error, w') \<Rightarrow>
                if isRateLimitError error
                then fallback_loop models genAI prompt startIndex (i + 1) (Some error) this w'
                else (Inl error, this, w'))
      else (Inl (case lastError of
                   Some e \<Rightarrow> e
                 | None \<Rightarrow> Error (Some ''All Gemini models are unavailable'')), this, w))"
  by pat_completeness auto
termination
  by (relation "measure (\<lambda>(models, genAI, prompt, startIndex, i, lastError, this, w).
                  length models - i)") auto

definition generateWithFallback ::
  "'w provider \<Rightarrow> string \<Rightarrow> ChatService \<Rightarrow> 'w \<Rightarrow> (js_error + string) \<times> ChatService \<times> 'w" where
  "generateWithFallback genAI prompt this w =
     fallback_loop GEMINI_MODELS genAI prompt (currentModelIndex this) 0 None this w"

text \<open>
  A provider for tests: each model's outcome is fixed by \<open>outcome\<close>, and the world is
  the list of the model names asked so far, oldest first.
\<close>

definition scripted_provider :: "(string \<Rightarrow> js_error + string) \<Rightarrow> (string list) provider" where
  "scripted_provider outcome modelName prompt calls = (outcome modelName, calls @ [modelName])"

text \<open>
  The order in which the specification visits the candidates: position \<open>(start + i) mod n\<close>
  for \<open>i\<close> from \<open>0\<close> below \<open>k\<close>.
\<close>

definition attempt_order :: "nat \<Rightarrow> nat \<Rightarrow> nat list" where
  "attempt_order start k = map (\<lambda>i. (start + i) mod length GEMINI_MODELS) [0..<k]"

text \<open>
  The provider is asked for each model of a list in turn and fails every time with a
  rate-limit error: the result is the last such error and the world after the calls.
\<close>

fun rate_limited_run ::
  "'w provider \<Rightarrow> string \<Rightarrow> string list \<Rightarrow> js_error option \<Rightarrow> 'w \<Rightarrow>
   (js_error option \<times> 'w) option" where
  "rate_limited_run genAI prompt [] lastError w = Some (lastError, w)"
| "rate_limited_run genAI prompt (m # ms) lastError w =
     (case genAI m prompt w of
        (Inl e, w') \<Rightarrow>
          if isRateLimitError e then rate_limited_run genAI prompt ms (Some e) w' else None
      | (Inr text, w') \<Rightarrow> None)"

subsection \<open>JSON\<close>

text \<open>
  The values \<^verbatim>\<open>JSON.parse\<close> can return. A string value is a list of code units, since
  an escape \<^verbatim>\<open>\uXXXX\<close> may denote any of them; a number keeps its literal instead of the
  double it denotes; an object keeps its members as written, and a property is read from
  the last member of that name.
\<close>

datatype json =
    JNull
  | JBool bool
  | JNumber string
  | JString "nat list"
  | JArray "json list"
  | JObject "(nat list \<times> json) list"

text \<open>
  \<^verbatim>\<open>JSON.parse\<close> as ECMAScript defines it: the JSON grammar, with TAB, LF, CR and SP as
  white space, no trailing commas, and nothing but white space after the value.
\<close>

definition isJSONWhiteSpace :: "char \<Rightarrow> bool" where
  "isJSONWhiteSpace c = ((of_char c :: nat) \<in> {9, 10, 13, 32})"

definition skip_ws :: "string \<Rightarrow> string" where
  "skip_ws s = dropWhile isJSONWhiteSpace s"

definition isDigit :: "char \<Rightarrow> bool" where
  "isDigit c = (48 \<le> (of_char c :: nat) \<and> (of_char c :: nat) \<le> 57)"

definition hex_value :: "char \<Rightarrow> nat option" where
  "hex_value c =
     (let k = (of_char c :: nat)
      in if 48 \<le> k \<and> k \<le> 57 then Some (k - 48)
         else if 65 \<le> k \<and> k \<le> 70 then Some (k - 55)
         else if 97 \<le> k \<and> k \<le> 102 then Some (k - 87)
         else None)"

definition unescape :: "char \<Rightarrow> nat option" where
  "unescape c =
     (if c = CHR 0x22 then Some 34
      else if c = CHR 0x5C then Some 92
      else if c = CHR ''/'' then Some 47
      else if c = CHR ''b'' then Some 8
      else if c = CHR ''f'' then Some 12
      else if c = CHR ''n'' then Some 10
      else if c = CHR ''r'' then Some 13
      else if c = CHR ''t'' then Some 9
      else None)"

text \<open>The characters of a string after its opening quote, up to the closing one.\<close>

fun parse_string_chars :: "string \<Rightarrow> nat list \<Rightarrow> (nat list \<times> string) option" where
  "parse_string_chars [] acc = None"
| "parse_string_chars (c # cs) acc =
     (if c = CHR 0x22 then Some (acc, cs)
      else if c = CHR 0x5C then
        (case cs of
           [] \<Rightarrow> None
         | e # r \<Rightarrow>
             if e = CHR ''u'' then
               (case r of
                  h1 # h2 # h3 # h4 # r' \<Rightarrow>
                    (case (hex_value h1, hex_value h2, hex_value h3, hex_value h4) of
                       (Some d1, Some d2, Some d3, Some d4) \<Rightarrow>
                         parse_string_chars r' (acc @ [((d1 * 16 + d2) * 16 + d3) * 16 + d4])
                     | _ \<Rightarrow> None)
                | _ \<Rightarrow> None)
             else
               (case unescape e of
                  Some u \<Rightarrow> parse_string_chars r (acc @ [u])
                | None \<Rightarrow> None))
      else if (of_char c :: nat) < 32 then None
      else parse_string_chars cs (acc @ [of_char c]))"

text \<open>A number: an optional minus, an integer without leading zeros, a fraction, an exponent.\<close>

definition parse_digits :: "string \<Rightarrow> (string \<times> string) option" where
  "parse_digits s =
     (let ds = takeWhile isDigit s
      in if ds = [] then None else Some (ds, dropWhile isDigit s))"

definition parse_int :: "string \<Rightarrow> (string \<times> string) option" where
  "parse_int s =
     (case s of
        [] \<Rightarrow> None
      | c # cs \<Rightarrow> if c = CHR ''0'' then Some ([c], cs) else parse_digits s)"

definition parse_frac :: "string \<Rightarrow> (string \<times> string) option" where
  "parse_frac s =
     (case s of
        [] \<Rightarrow> Some ([], s)
      | c # cs \<Rightarrow>
          if c = CHR ''.'' then
            (case parse_digits cs of None \<Rightarrow> None | Some (ds, r) \<Rightarrow> Some (c # ds, r))
          else Some ([], s))"

definition parse_exp :: "string \<Rightarrow> (string \<times> string) option" where
  "parse_exp s =
     (case s of
        [] \<Rightarrow> Some ([], s)
      | c # cs \<Rightarrow>
          if c = CHR ''e'' \<or> c = CHR ''E'' then
            (let (sign, cs') =
               (case cs of
                  [] \<Rightarrow> ([], cs)
                | d # ds \<Rightarrow> if d = CHR ''+'' \<or> d = CHR ''-'' then ([d], ds) else ([], cs))
             in case parse_digits cs' of
                  None \<Rightarrow> None
                | Some (ds, r) \<Rightarrow> Some (c # sign @ ds, r))
          else Some ([], s))"

definition parse_number :: "string \<Rightarrow> (string \<times> string) option" where
  "parse_number s =
     (let (sign, s1) =
        (case s of
           [] \<Rightarrow> ([], s)
         | c # cs \<Rightarrow> if c = CHR ''-'' then ([c], cs) else ([], s))
      in case parse_int s1 of
           None \<Rightarrow> None
         | Some (n, s2) \<Rightarrow>
             (case parse_frac s2 of
                None \<Rightarrow> None
              | Some (f, s3) \<Rightarrow>
                  (case parse_exp s3 of
                     None \<Rightarrow> None
                   | Some (e, s4) \<Rightarrow> Some (sign @ n @ f @ e, s4))))"

text \<open>
  A value, the elements of an array after \<^verbatim>\<open>[\<close>, and the members of an object after
  \<^verbatim>\<open>{\<close>. Each returns the rest of the input. The tests \<open>length r < length s\<close> only make
  the recursion visibly terminating: the rest is always shorter.
\<close>

function parse_value :: "string \<Rightarrow> (json \<times> string) option"
  and parse_elements :: "string \<Rightarrow> json list \<Rightarrow> (json \<times> string) option"
  and parse_members :: "string \<Rightarrow> (nat list \<times> json) list \<Rightarrow> (json \<times> string) option" where
  "parse_value s =
     (case skip_ws s of
        [] \<Rightarrow> None
      | c # cs \<Rightarrow>
          if c = CHR ''{'' then
            (case skip_ws cs of
               [] \<Rightarrow> None
             | d # r \<Rightarrow> if d = CHR ''}'' then Some (JObject [], r) else parse_members cs [])
          else if c = CHR ''['' then
            (case skip_ws cs of
               [] \<Rightarrow> None
             | d # r \<Rightarrow> if d = CHR '']'' then Some (JArray [], r) else parse_elements cs [])
          else if c = CHR 0x22 then
            (case parse_string_chars cs [] of
               None \<Rightarrow> None
             | Some (str, r) \<Rightarrow> Some (JString str, r))
          else if prefix ''true'' (c # cs) then Some (JBool True, drop 4 (c # cs))
          else if prefix ''false'' (c # cs) then Some (JBool False, drop 5 (c # cs))
          else if prefix ''null'' (c # cs) then Some (JNull, drop 4 (c # cs))
          else
            (case parse_number (c # cs) of
               None \<Rightarrow> None
             | Some (num, r) \<Rightarrow> Some (JNumber num, r)))"
| "parse_elements s acc =
     (case parse_value s of
        None \<Rightarrow> None
      | Some (v, r) \<Rightarrow>
          (case skip_ws r of
             [] \<Rightarrow> None
           | d # r' \<Rightarrow>
               if d = CHR '','' then
                 (if length r' < length s then parse_elements r' (acc @ [v]) else None)
               else if d = CHR '']'' then Some (JArray (acc @ [v]), r')
               else None))"
| "parse_members s acc =
     (case skip_ws s of
        [] \<Rightarrow> None
      | q # cs \<Rightarrow>
          if q = CHR 0x22 then
            (case parse_string_chars cs [] of
               None \<Rightarrow> None
             | Some (key, r) \<Rightarrow>
                 (case skip_ws r of
                    [] \<Rightarrow> None
                  | colon # r1 \<Rightarrow>
                      if colon = CHR '':'' \<and> length r1 < length s then
                        (case parse_value r1 of
                           None \<Rightarrow> None
                         | Some (v, r2) \<Rightarrow>
                             (case skip_ws r2 of
                                [] \<Rightarrow> None
                              | d # r3 \<Rightarrow>
                                  if d = CHR '','' then
                                    (if length r3 < length s
                                     then parse_members r3 (acc @ [(key, v)]) else None)
                                  else if d = CHR ''}'' then Some (JObject (acc @ [(key, v)]), r3)
                                  else None))
                      else None))
          else None)"
  by pat_completeness auto
termination
proof (relation "measure (\<lambda>x. case x of
                    Inl s \<Rightarrow> 2 * length s
                  | Inr (Inl (s, acc)) \<Rightarrow> 2 * length s + 1
                  | Inr (Inr (s, acc)) \<Rightarrow> 2 * length s + 1)", goal_cases)
  case 1 show ?case by simp
next
  case (2 s c cs d r)
  have "length (skip_ws s) \<le> length s" by (simp add: skip_ws_def length_dropWhile_le)
  with 2 show ?case by simp
next
  case (3 s c cs d r)
  have "length (skip_ws s) \<le> length s" by (simp add: skip_ws_def length_dropWhile_le)
  with 3 show ?case by simp
qed simp_all

definition JSON_parse :: "string \<Rightarrow> json option" where
  "JSON_parse text =
     (case parse_value text of
        None \<Rightarrow> None
      | Some (v, r) \<Rightarrow> if skip_ws r = [] then Some v else None)"

text \<open>A string of the model as the code units of a JSON string value.\<close>

definition js_string :: "string \<Rightarrow> nat list" where
  "js_string s = map of_char s"

text \<open>Reading a property of a parsed value: the last member of that name wins.\<close>

definition json_get :: "json \<Rightarrow> string \<Rightarrow> json option" where
  "json_get j key =
     (case j of
        JObject members \<Rightarrow> map_of (rev members) (js_string key)
      | _ \<Rightarrow> None)"

subsection \<open>The prompt\<close>

datatype SupportedLanguage = english | japanese | korean | chinese | french | german | spanish

record LanguageConfig =
  name :: string
  nativeName :: string
  tutorDescription :: string
  pronunciationSystem :: string
  pronunciationExample :: string
  exampleOriginal :: string
  exampleCorrection :: string
  exampleCorrectionPronunciation :: string
  exampleExplanation :: string
  exampleReply :: string
  examplePronunciation :: string
  specialRules :: "string list"

text \<open>
  The texts of the table \<^verbatim>\<open>LANGUAGE_CONFIGS\<close> use code units above 255 (phonetic symbols,
  kana, hangul), so the table is a parameter \<open>configs\<close> of the functions that read it: a
  total function on the seven languages.
\<close>

definition dq :: string where
  "dq = [CHR 0x22]"

definition nl :: string where
  "nl = [CHR 0x0A]"

definition getSystemPrompt :: "(SupportedLanguage \<Rightarrow> LanguageConfig) \<Rightarrow> SupportedLanguage \<Rightarrow> string" where
  "getSystemPrompt configs language =
     (let config = configs language;
          specialRulesText =
            join nl (map (\<lambda>(index, rule). string_of_nat (index + 8) @ ''. '' @ rule)
                       (enumerate 0 (specialRules config)))
      in concat
        [''You are '', tutorDescription config, ''. Your role is to help students improve their '',
           name config, '' ('', nativeName config, '') speaking skills.'', nl,
         nl,
         ''When a student speaks, you must respond in a structured JSON format with the following fields:'', nl,
         ''- original: The original text the student said (exactly as they said it)'', nl,
         ''- correction: The corrected version if there are any grammar, pronunciation, or vocabulary mistakes'', nl,
         ''- correctionPronunciation: '', pronunciationSystem config,
           '' transcription of the CORRECTED sentence (this helps students practice the correct pronunciation)'', nl,
         ''- explanation: A brief, friendly explanation of the correction (if any mistakes were found) - respond in '',
           name config, nl,
         ''- reply: Your natural, conversational reply as a tutor in '', name config,
           '' (encourage the student, ask follow-up questions, or provide feedback)'', nl,
         ''- pronunciation: '', pronunciationSystem config, '' transcription of your reply'', nl,
         nl,
         ''IMPORTANT RULES:'', nl,
         ''1. Always return valid JSON only, no additional text before or after'', nl,
         ''2. If the student's '', name config, '' is perfect, set '', dq, ''correction'', dq,
           '' to the same as '', dq, ''original'', dq, '' and '', dq, ''correctionPronunciation'', dq,
           '' to the pronunciation of the original'', nl,
         ''3. Be encouraging and friendly in your '', dq, ''reply'', dq, '' - always respond in '',
           name config, nl,
         ''4. Focus on natural conversation flow in '', name config, nl,
         ''5. If the student makes multiple mistakes, correct the most important ones'', nl,
         ''6. For pronunciation fields, always use '', pronunciationSystem config, nl,
         ''7. The '', dq, ''correctionPronunciation'', dq,
           '' field is REQUIRED - it helps students practice saying the sentence correctly'', nl,
         specialRulesText, nl,
         nl,
         ''Example response format:'', nl,
         ''{'', nl,
         ''  '', dq, ''original'', dq, '': '', dq, exampleOriginal config, dq, '','', nl,
         ''  '', dq, ''correction'', dq, '': '', dq, exampleCorrection config, dq, '','', nl,
         ''  '', dq, ''correctionPronunciation'', dq, '': '', dq,
           exampleCorrectionPronunciation config, dq, '','', nl,
         ''  '', dq, ''explanation'', dq, '': '', dq, exampleExplanation config, dq, '','', nl,
         ''  '', dq, ''reply'', dq, '': '', dq, exampleReply config, dq, '','', nl,
         ''  '', dq, ''pronunciation'', dq, '': '', dq, examplePronunciation config, dq, nl,
         ''}''])"

text \<open>
  A turn of the conversation, as the caller sends it. The fields \<^verbatim>\<open>id\<close> and \<^verbatim>\<open>data\<close> of
  \<^verbatim>\<open>ChatMessage\<close> are \<open>msg_id\<close> and \<open>msg_data\<close> here, and the field \<^verbatim>\<open>message\<close> of
  \<^verbatim>\<open>SendMessageDto\<close> is \<open>dto_message\<close>, since \<open>id\<close>, \<open>data\<close> and \<open>message\<close> name other
  things in this theory. An optional field is an \<open>option\<close>.
\<close>

datatype role = user | assistant

record ChatMessageData =
  original :: "string option"
  correction :: "string option"
  correctionPronunciation :: "string option"
  explanation :: "string option"
  reply :: "string option"
  pronunciation :: "string option"

record ChatMessage =
  msg_id :: "string option"
  role :: role
  content :: string
  timestamp :: "int option"
  msg_data :: "ChatMessageData option"

text \<open>
  The callback of \<^verbatim>\<open>map\<close>: a user turn gives a line, an assistant turn gives one when
  \<^verbatim>\<open>msg.data?.reply\<close> is truthy, that is present and not empty; otherwise the empty string.
\<close>

definition history_line :: "ChatMessage \<Rightarrow> string" where
  "history_line msg =
     (if role msg = user then ''Student: '' @ content msg
      else (case msg_data msg of
              None \<Rightarrow> []
            | Some d \<Rightarrow>
                (case reply d of
                   None \<Rightarrow> []
                 | Some r \<Rightarrow> if r \<noteq> [] then ''Tutor: '' @ r else [])))"

definition historyContext :: "ChatMessage list \<Rightarrow> string" where
  "historyContext chatHistory =
     (let recentHistory = drop (length chatHistory - 10) chatHistory
      in if length recentHistory > 0
         then join nl (filter (\<lambda>line. line \<noteq> []) (map history_line recentHistory))
         else ''This is the start of the conversation.'')"

text \<open>
  The specification's rendering of one turn: a user turn is a line of the student, an
  assistant turn with a non-empty reply is a line of the tutor, any other turn is nothing.
\<close>

definition render_turn :: "ChatMessage \<Rightarrow> string option" where
  "render_turn msg =
     (case role msg of
        user \<Rightarrow> Some (''Student: '' @ content msg)
      | assistant \<Rightarrow>
          (case msg_data msg of
             None \<Rightarrow> None
           | Some d \<Rightarrow>
               (case reply d of
                  None \<Rightarrow> None
                | Some r \<Rightarrow> if r = [] then None else Some (''Tutor: '' @ r))))"

definition fullPrompt ::
  "(SupportedLanguage \<Rightarrow> LanguageConfig) \<Rightarrow> string \<Rightarrow> ChatMessage list \<Rightarrow> SupportedLanguage \<Rightarrow> string" where
  "fullPrompt configs userMessage chatHistory targetLanguage =
     getSystemPrompt configs targetLanguage @ nl @ nl @ ''Conversation History:'' @ nl @
     historyContext chatHistory @ nl @ nl @ ''Student: '' @ userMessage @ nl @ nl @
     ''Tutor (respond in JSON format):''"

subsection \<open>The response\<close>

text \<open>
  \<^verbatim>\<open>text.replace(/<fence>\n?/g, '')\<close> for a literal, non-empty fence: scanning from the
  left, every match of the fence, with the line feed after it when there is one, is
  deleted, and the scan goes on behind the match.
\<close>

function replace_fence :: "string \<Rightarrow> string \<Rightarrow> string" where
  "replace_fence fence [] = []"
| "replace_fence fence (c # cs) =
     (if fence \<noteq> [] \<and> prefix fence (c # cs) then
        (case drop (length fence) (c # cs) of
           [] \<Rightarrow> []
         | d # r \<Rightarrow> if d = CHR 0x0A then replace_fence fence r else replace_fence fence (d # r))
      else c # replace_fence fence cs)"
  by pat_completeness auto
termination
proof (relation "measure (\<lambda>(fence, s). length s)", goal_cases)
  case 1
  show ?case by simp
next
  case (2 fence c cs d r)
  then have "length (d # r) = length (c # cs) - length fence" by (metis length_drop)
  with 2 show ?case by (cases fence) auto
next
  case (3 fence c cs d r)
  then have "length (d # r) = length (c # cs) - length fence" by (metis length_drop)
  with 3 show ?case by (cases fence) auto
next
  case 4
  then show ?case by simp
qed

definition cleanedText :: "string \<Rightarrow> string" where
  "cleanedText text = trim (replace_fence ''```'' (replace_fence ''```json'' text))"

record ChatResponseDto =
  success :: bool
  data :: json

text \<open>The inner \<^verbatim>\<open>try\<close> of \<^verbatim>\<open>sendMessage\<close>: a \<^verbatim>\<open>SyntaxError\<close> of the parser selects the fallback.\<close>

definition parseResponse :: "string \<Rightarrow> string \<Rightarrow> ChatResponseDto" where
  "parseResponse userMessage text =
     (case JSON_parse (cleanedText text) of
        Some jsonResponse \<Rightarrow> \<lparr>success = True, data = jsonResponse\<rparr>
      | None \<Rightarrow>
          \<lparr>success = True,
           data = JObject
             [(js_string ''original'', JString (js_string userMessage)),
              (js_string ''correction'', JString (js_string userMessage)),
              (js_string ''correctionPronunciation'', JString []),
              (js_string ''explanation'', JString []),
              (js_string ''reply'', JString (js_string text)),
              (js_string ''pronunciation'', JString [])]\<rparr>)"

text \<open>
  The shape the specification gives to the data of a response: each of the six fields is
  there and is a string.
\<close>

definition isPlainString :: "json option \<Rightarrow> bool" where
  "isPlainString v = (case v of Some (JString s) \<Rightarrow> True | _ \<Rightarrow> False)"

definition isTutorResponse :: "json \<Rightarrow> bool" where
  "isTutorResponse j =
     (isPlainString (json_get j ''original'')
      \<and> isPlainString (json_get j ''correction'')
      \<and> isPlainString (json_get j ''correctionPronunciation'')
      \<and> isPlainString (json_get j ''explanation'')
      \<and> isPlainString (json_get j ''reply'')
      \<and> isPlainString (json_get j ''pronunciation''))"

text \<open>The outer \<^verbatim>\<open>catch\<close>: every error leaves \<^verbatim>\<open>sendMessage\<close> as an \<^verbatim>\<open>HttpException\<close>.\<close>

datatype HttpException = HttpException (response: string) (status: nat)

definition INTERNAL_SERVER_ERROR :: nat where
  "INTERNAL_SERVER_ERROR = 500"

definition TOO_MANY_REQUESTS :: nat where
  "TOO_MANY_REQUESTS = 429"

definition classifyError :: "js_error \<Rightarrow> HttpException" where
  "classifyError error =
     (if (case js_error.message error of None \<Rightarrow> False | Some m \<Rightarrow> str_includes m ''API_KEY'')
      then HttpException ''Invalid API key configuration'' INTERNAL_SERVER_ERROR
      else if isRateLimitError error
      then HttpException ''All AI models are currently rate limited. Please try again later.''
             TOO_MANY_REQUESTS
      else HttpException
             (''Failed to get AI response: '' @
              (case js_error.message error of
                 None \<Rightarrow> ''Unknown error''
               | Some m \<Rightarrow> if m \<noteq> [] then m else ''Unknown error''))
             INTERNAL_SERVER_ERROR)"

text \<open>
  \<^verbatim>\<open>sendMessage\<close>. An omitted argument is \<open>None\<close> and takes the default of the
  parameter list.
\<close>

definition sendMessage ::
  "(SupportedLanguage \<Rightarrow> LanguageConfig) \<Rightarrow> 'w provider \<Rightarrow> string \<Rightarrow> ChatMessage list option \<Rightarrow>
   SupportedLanguage option \<Rightarrow> ChatService \<Rightarrow> 'w \<Rightarrow>
   (HttpException + ChatResponseDto) \<times> ChatService \<times> 'w" where
  "sendMessage configs genAI userMessage chatHistory targetLanguage this w =
     (let chatHistory = (case chatHistory of None \<Rightarrow> [] | Some h \<Rightarrow> h);
          targetLanguage = (case targetLanguage of None \<Rightarrow> english | Some l \<Rightarrow> l)
      in case generateWithFallback genAI
                (fullPrompt configs userMessage chatHistory targetLanguage) this w of
           (Inr text, this', w') \<Rightarrow> (Inr (parseResponse userMessage text), this', w')
         | (Inl error, this', w') \<Rightarrow> (Inl (classifyError error), this', w'))"

subsection \<open>The controller\<close>

record SendMessageDto =
  dto_message :: string
  targetLanguage :: "SupportedLanguage option"
  chatHistory :: "ChatMessage list option"

text \<open>\<^verbatim>\<open>ChatController.sendMessage\<close>: \<^verbatim>\<open>dto.targetLanguage || 'english'\<close> is passed on.\<close>

definition ChatController_sendMessage ::
  "(SupportedLanguage \<Rightarrow> LanguageConfig) \<Rightarrow> 'w provider \<Rightarrow> SendMessageDto \<Rightarrow> ChatService \<Rightarrow> 'w \<Rightarrow>
   (HttpException + ChatResponseDto) \<times> ChatService \<times> 'w" where
  "ChatController_sendMessage configs genAI dto this w =
     sendMessage configs genAI (dto_message dto) (chatHistory dto)
       (Some (case targetLanguage dto of None \<Rightarrow> english | Some l \<Rightarrow> l)) this w"

subsection \<open>The running service\<close>

text \<open>
  The states the process can be in: the service starts with the cursor at 0, requests
  are served one after the other, and between requests the world may change.
\<close>

inductive reachable ::
  "(SupportedLanguage \<Rightarrow> LanguageConfig) \<Rightarrow> 'w provider \<Rightarrow> ChatService \<times> 'w \<Rightarrow> bool"
  for configs :: "SupportedLanguage \<Rightarrow> LanguageConfig" and genAI :: "'w provider" where
    start: "reachable configs genAI (new_ChatService, w)"
  | world: "reachable configs genAI (this, w) \<Longrightarrow> reachable configs genAI (this, w')"
  | request:
      "reachable configs genAI (this, w) \<Longrightarrow>
       sendMessage configs genAI userMessage history language this w = (r, this', w') \<Longrightarrow>
       reachable configs genAI (this', w')"

subsection \<open>Scenarios\<close>

text \<open>The first model is rate limited, the second one rejects the request.\<close>

definition outcome_second_rejects :: "string \<Rightarrow> js_error + string" where
  "outcome_second_rejects modelName =
     (if modelName = ''gemini-3-flash-preview'' then Inl (Error (Some ''[429 Too Many Requests] quota''))
      else if modelName = ''gemini-2.5-flash'' then Inl (Error (Some ''[400 Bad Request] invalid argument''))
      else Inr ''never asked'')"

text \<open>The first model rejects the request.\<close>

definition outcome_first_rejects :: "string \<Rightarrow> js_error + string" where
  "outcome_first_rejects modelName =
     (if modelName = ''gemini-3-flash-preview''
      then Inl (Error (Some ''[400 Bad Request] invalid argument''))
      else Inr ''never asked'')"

text \<open>The first two models are rate limited, the third one answers.\<close>

definition outcome_third_answers :: "string \<Rightarrow> js_error + string" where
  "outcome_third_answers modelName =
     (if modelName = ''gemini-2.0-flash'' then Inr ''answer of model 2''
      else Inl (Error (Some ''[429 Too Many Requests] Resource has been exhausted'')))"

text \<open>A language table with one short profile for every language.\<close>

definition test_config :: LanguageConfig where
  "test_config =
     \<lparr>name = ''English'', nativeName = ''English'',
      tutorDescription = ''a professional English speaking tutor'',
      pronunciationSystem = ''IPA'', pronunciationExample = ''/greit/'',
      exampleOriginal = ''I go to school yesterday'',
      exampleCorrection = ''I went to school yesterday'',
      exampleCorrectionPronunciation = ''/ai went/'',
      exampleExplanation = ''We use went.'',
      exampleReply = ''Great effort!'',
      examplePronunciation = ''/greit efert/'',
      specialRules = [''Use primary stress marks'', ''Focus on common mistakes'']\<rparr>"

definition test_configs :: "SupportedLanguage \<Rightarrow> LanguageConfig" where
  "test_configs language = test_config"

text \<open>Every model is rate limited.\<close>

definition outcome_all_limited :: "string \<Rightarrow> js_error + string" where
  "outcome_all_limited modelName =
     (if modelName = ''gemini-2.0-flash'' then Inl (Error (Some ''Quota exceeded''))
      else Inl (Error (Some ''[429 Too Many Requests] Resource has been exhausted'')))"

text \<open>Every model is rate limited, with a message that also names the key.\<close>

definition outcome_key_quota :: "string \<Rightarrow> js_error + string" where
  "outcome_key_quota modelName =
     Inl (Error (Some ''[429 Too Many Requests] quota exceeded for API_KEY''))"

text \<open>Turns of a conversation: of the student, of the tutor, and of the tutor without a reply.\<close>

definition user_turn :: "string \<Rightarrow> ChatMessage" where
  "user_turn c = \<lparr>msg_id = None, role = user, content = c, timestamp = None, msg_data = None\<rparr>"

definition tutor_turn :: "string \<Rightarrow> ChatMessage" where
  "tutor_turn r =
     \<lparr>msg_id = None, role = assistant, content = r, timestamp = None,
      msg_data = Some \<lparr>original = None, correction = None, correctionPronunciation = None,
                        explanation = None, reply = Some r, pronunciation = None\<rparr>\<rparr>"

definition silent_turn :: ChatMessage where
  "silent_turn =
     \<lparr>msg_id = None, role = assistant, content = ''thinking'', timestamp = None, msg_data = None\<rparr>"

definition early_turns :: "ChatMessage list" where
  "early_turns =
     [user_turn ''t1'', tutor_turn ''t2'', user_turn ''t3'', tutor_turn ''t4'', user_turn ''t5'']"

definition late_turns :: "ChatMessage list" where
  "late_turns =
     [tutor_turn ''t6'', user_turn ''t7'', silent_turn, user_turn ''t9'', tutor_turn ''t10'',
      user_turn ''t11'', tutor_turn [], user_turn ''t13'', tutor_turn ''t14'', user_turn ''t15'']"

text \<open>Texts a model may give back.\<close>

definition quoted :: "string \<Rightarrow> string" where
  "quoted s = dq @ s @ dq"

definition raw_not_json :: string where
  "raw_not_json = ''I can't help with that''"

definition raw_fenced_json :: string where
  "raw_fenced_json =
     ''```json'' @ nl @
     ''{'' @ quoted ''original'' @ '':'' @ quoted ''hi'' @ '','' @
             quoted ''correction'' @ '':'' @ quoted ''hi'' @ '','' @
             quoted ''correctionPronunciation'' @ '':'' @ quoted ''/hai/'' @ '','' @
             quoted ''explanation'' @ '':'' @ quoted [] @ '','' @
             quoted ''reply'' @ '':'' @ quoted ''Hello!'' @ '','' @
             quoted ''pronunciation'' @ '':'' @ quoted ''/helou/'' @ ''}'' @ nl @
     ''```''"

definition raw_null_field :: string where
  "raw_null_field =
     ''{'' @ quoted ''original'' @ '':'' @ quoted ''hi'' @ '','' @
             quoted ''correction'' @ '':'' @ quoted ''hi'' @ '','' @
             quoted ''correctionPronunciation'' @ '':'' @ quoted ''/hai/'' @ '','' @
             quoted ''explanation'' @ '':null,'' @
             quoted ''reply'' @ '':'' @ quoted ''Hello!'' @ '','' @
             quoted ''pronunciation'' @ '':'' @ quoted ''/helou/'' @ ''}''"

definition raw_backticks :: string where
  "raw_backticks = ''{'' @ quoted ''reply'' @ '':'' @ quoted ''Write ```x = 1``` here'' @ ''}''"

definition outcome_answer :: "string \<Rightarrow> string \<Rightarrow> js_error + string" where
  "outcome_answer answer modelName = Inr answer"

section \<open>Properties\<close>

subsection \<open>The fallback loop\<close>

lemma fallback_loop_skip:
  "i + k \<le> length models \<Longrightarrow>
   rate_limited_run genAI prompt
      (map (\<lambda>j. models ! ((start + j) mod length models)) [i..<i + k]) lastError w = Some (last', w') \<Longrightarrow>
   fallback_loop models genAI prompt start i lastError this w =
   fallback_loop models genAI prompt start (i + k) last' this w'"
proof (induction k arbitrary: i lastError w)
  case 0
  then show ?case by simp
next
  case (Suc k)
  have lt: "i < length models" using Suc.prems(1) by simp
  have upt: "[i..<i + Suc k] = i # [Suc i..<Suc i + k]"
    by (simp add: upt_conv_Cons)
  obtain r w1 where g: "genAI (models ! ((start + i) mod length models)) prompt w = (r, w1)"
    by (cases "genAI (models ! ((start + i) mod length models)) prompt w")
  from Suc.prems(2) obtain e where r: "r = Inl e" and rl: "isRateLimitError e"
    and rest: "rate_limited_run genAI prompt
      (map (\<lambda>j. models ! ((start + j) mod length models)) [Suc i..<Suc i + k]) (Some e) w1 = Some (last', w')"
    unfolding upt using g by (auto split: sum.splits if_splits)
  have "fallback_loop models genAI prompt start i lastError this w =
        fallback_loop models genAI prompt start (Suc i) (Some e) this w1"
    using lt g r rl by (subst fallback_loop.simps) (simp add: Let_def)
  also have "\<dots> = fallback_loop models genAI prompt start (Suc i + k) last' this w'"
    using Suc.IH[OF _ rest] Suc.prems(1) by simp
  finally show ?case by simp
qed

lemma attempt_names:
  "map (nth GEMINI_MODELS) (attempt_order start k) =
   map (\<lambda>j. GEMINI_MODELS ! ((start + j) mod length GEMINI_MODELS)) [0..<0 + k]"
  by (simp add: attempt_order_def comp_def)

lemma generateWithFallback_skip:
  assumes "k \<le> length GEMINI_MODELS"
    and "rate_limited_run genAI prompt (map (nth GEMINI_MODELS) (attempt_order (currentModelIndex this) k))
           None w = Some (lastError, w1)"
  shows "generateWithFallback genAI prompt this w =
         fallback_loop GEMINI_MODELS genAI prompt (currentModelIndex this) k lastError this w1"
  using fallback_loop_skip[of 0 k GEMINI_MODELS genAI prompt "currentModelIndex this" None w lastError w1 this]
    assms unfolding generateWithFallback_def attempt_names by simp

text \<open>
  C3. When the candidates tried so far have all failed with rate-limit errors and the next
  one fails with an error that is not a rate-limit error, the loop stops there: that
  very error is thrown, the cursor is unchanged, and the world is the one right after the
  failed call, so no further candidate is asked.
\<close>

theorem nonRateLimit_error_aborts:
  assumes "k < length GEMINI_MODELS"
    and "rate_limited_run genAI prompt
           (map (nth GEMINI_MODELS) (attempt_order (currentModelIndex this) k)) None w = Some (lastError, w1)"
    and "genAI (GEMINI_MODELS ! ((currentModelIndex this + k) mod length GEMINI_MODELS)) prompt w1 = (Inl e, w2)"
    and "\<not> isRateLimitError e"
  shows "generateWithFallback genAI prompt this w = (Inl e, this, w2)"
proof -
  have "generateWithFallback genAI prompt this w =
        fallback_loop GEMINI_MODELS genAI prompt (currentModelIndex this) k lastError this w1"
    using assms(1,2) by (intro generateWithFallback_skip) simp_all
  also have "\<dots> = (Inl e, this, w2)"
    using assms(1,3,4) by (subst fallback_loop.simps) (simp add: Let_def)
  finally show ?thesis .
qed

theorem nonRateLimit_error_aborts_witness:
  "generateWithFallback (scripted_provider outcome_first_rejects) ''p'' new_ChatService [] =
     (Inl (Error (Some ''[400 Bad Request] invalid argument'')), new_ChatService,
      [''gemini-3-flash-preview''])
   \<and> generateWithFallback (scripted_provider outcome_second_rejects) ''p'' new_ChatService [] =
     (Inl (Error (Some ''[400 Bad Request] invalid argument'')), new_ChatService,
      [''gemini-3-flash-preview'', ''gemini-2.5-flash''])"
proof
  show "generateWithFallback (scripted_provider outcome_first_rejects) ''p'' new_ChatService [] =
     (Inl (Error (Some ''[400 Bad Request] invalid argument'')), new_ChatService,
      [''gemini-3-flash-preview''])"
    by (rule nonRateLimit_error_aborts[where k = 0 and lastError = None and ?w1.0 = "[]"]; code_simp)
  show "generateWithFallback (scripted_provider outcome_second_rejects) ''p'' new_ChatService [] =
     (Inl (Error (Some ''[400 Bad Request] invalid argument'')), new_ChatService,
      [''gemini-3-flash-preview'', ''gemini-2.5-flash''])"
    by (rule nonRateLimit_error_aborts[where k = 1
          and lastError = "Some (Error (Some ''[429 Too Many Requests] quota''))"
          and ?w1.0 = "[''gemini-3-flash-preview'']"]; code_simp)
qed

lemma length_GEMINI_MODELS: "length GEMINI_MODELS = 3"
  by (simp add: GEMINI_MODELS_def)

lemma scripted_loop_extends:
  "\<exists>rest. snd (snd (fallback_loop models (scripted_provider outcome) prompt start i lastError this calls))
     = calls @ rest"
proof (induction "length models - i" arbitrary: i lastError calls)
  case 0
  then show ?case by (subst fallback_loop.simps) simp
next
  case (Suc d)
  then have lt: "i < length models" by simp
  have d: "d = length models - (i + 1)" using Suc.hyps(2) by simp
  let ?m = "models ! ((start + i) mod length models)"
  show ?case
  proof (cases "outcome ?m")
    case (Inr answer)
    then show ?thesis using lt
      by (subst fallback_loop.simps) (simp add: Let_def scripted_provider_def)
  next
    case (Inl e)
    show ?thesis
    proof (cases "isRateLimitError e")
      case False
      then show ?thesis using lt Inl
        by (subst fallback_loop.simps) (simp add: Let_def scripted_provider_def)
    next
      case True
      from Suc.hyps(1)[OF d, of "Some e" "calls @ [?m]"] obtain rest where
        "snd (snd (fallback_loop models (scripted_provider outcome) prompt start (i + 1) (Some e) this
           (calls @ [?m]))) = (calls @ [?m]) @ rest" by blast
      then show ?thesis using lt Inl True
        by (subst fallback_loop.simps) (simp add: Let_def scripted_provider_def)
    qed
  qed
qed

lemma scripted_first_call:
  assumes "currentModelIndex this < length GEMINI_MODELS"
  shows "\<exists>r s rest. generateWithFallback (scripted_provider outcome) prompt this calls =
           (r, s, calls @ GEMINI_MODELS ! currentModelIndex this # rest)"
proof -
  let ?m = "GEMINI_MODELS ! currentModelIndex this"
  have pos: "0 < length GEMINI_MODELS" by (simp add: length_GEMINI_MODELS)
  have idx: "(currentModelIndex this + 0) mod length GEMINI_MODELS = currentModelIndex this"
    using assms by simp
  show ?thesis
  proof (cases "outcome ?m")
    case (Inr answer)
    then show ?thesis using pos idx unfolding generateWithFallback_def
      by (subst fallback_loop.simps) (simp add: Let_def scripted_provider_def)
  next
    case (Inl e)
    show ?thesis
    proof (cases "isRateLimitError e")
      case False
      then show ?thesis using pos idx Inl unfolding generateWithFallback_def
        by (subst fallback_loop.simps) (simp add: Let_def scripted_provider_def)
    next
      case True
      obtain r s z where res: "fallback_loop GEMINI_MODELS (scripted_provider outcome) prompt
          (currentModelIndex this) (0 + 1) (Some e) this (calls @ [?m]) = (r, s, z)"
        by (metis prod_cases3)
      from scripted_loop_extends[of GEMINI_MODELS outcome prompt "currentModelIndex this" "0 + 1"
          "Some e" this "calls @ [?m]"] res
      obtain rest where "z = (calls @ [?m]) @ rest" by auto
      then show ?thesis using pos idx Inl True res unfolding generateWithFallback_def
        by (subst fallback_loop.simps) (simp add: Let_def scripted_provider_def)
    qed
  qed
qed

text \<open>
  C1. The candidates are asked one after the other, at the positions \<open>(start + i) mod n\<close>
  for \<open>i = 0, 1, ...\<close>, where \<open>start\<close> is the cursor: when the first \<open>k\<close> of them, asked
  in this order, fail with rate-limit errors and the next one answers, the call returns
  that answer, sets the cursor to that position and asks nobody else (the world is the
  one right after the successful call). From the new cursor, the next call asks the
  model that answered before any other, whatever the models then do.
\<close>

theorem fallback_first_success:
  fixes genAI :: "'w provider"
  assumes "k < length GEMINI_MODELS"
    and "rate_limited_run genAI prompt
           (map (nth GEMINI_MODELS) (attempt_order (currentModelIndex this) k)) None w = Some (lastError, w1)"
    and "genAI (GEMINI_MODELS ! ((currentModelIndex this + k) mod length GEMINI_MODELS)) prompt w1
           = (Inr text, w2)"
  shows "generateWithFallback genAI prompt this w =
           (Inr text,
            this\<lparr>currentModelIndex := (currentModelIndex this + k) mod length GEMINI_MODELS\<rparr>, w2)
         \<and> (\<forall>outcome prompt' calls. \<exists>r s rest.
               generateWithFallback (scripted_provider outcome) prompt'
                 (this\<lparr>currentModelIndex := (currentModelIndex this + k) mod length GEMINI_MODELS\<rparr>)
                 calls
               = (r, s, calls @
                    GEMINI_MODELS ! ((currentModelIndex this + k) mod length GEMINI_MODELS) # rest))"
proof
  have "generateWithFallback genAI prompt this w =
        fallback_loop GEMINI_MODELS genAI prompt (currentModelIndex this) k lastError this w1"
    using assms(1,2) by (intro generateWithFallback_skip) simp_all
  also have "\<dots> = (Inr text,
      this\<lparr>currentModelIndex := (currentModelIndex this + k) mod length GEMINI_MODELS\<rparr>, w2)"
    using assms(1,3) by (subst fallback_loop.simps) (simp add: Let_def)
  finally show "generateWithFallback genAI prompt this w =
      (Inr text, this\<lparr>currentModelIndex := (currentModelIndex this + k) mod length GEMINI_MODELS\<rparr>, w2)" .
next
  let ?this' = "this\<lparr>currentModelIndex := (currentModelIndex this + k) mod length GEMINI_MODELS\<rparr>"
  have "currentModelIndex ?this' < length GEMINI_MODELS" by (simp add: length_GEMINI_MODELS)
  from scripted_first_call[OF this]
  show "\<forall>outcome prompt' calls. \<exists>r s rest.
          generateWithFallback (scripted_provider outcome) prompt' ?this' calls
          = (r, s, calls @ GEMINI_MODELS ! ((currentModelIndex this + k) mod length GEMINI_MODELS) # rest)"
    by simp
qed

theorem fallback_first_success_witness:
  "generateWithFallback (scripted_provider outcome_third_answers) ''first prompt'' new_ChatService [] =
     (Inr ''answer of model 2'', \<lparr>currentModelIndex = 2\<rparr>,
      [''gemini-3-flash-preview'', ''gemini-2.5-flash'', ''gemini-2.0-flash''])
   \<and> (\<exists>r s rest. generateWithFallback (scripted_provider outcome_third_answers) ''second prompt''
          \<lparr>currentModelIndex = 2\<rparr> [] = (r, s, ''gemini-2.0-flash'' # rest))"
proof -
  have k: "2 < length GEMINI_MODELS" by code_simp
  have run: "rate_limited_run (scripted_provider outcome_third_answers) ''first prompt''
      (map (nth GEMINI_MODELS) (attempt_order (currentModelIndex new_ChatService) 2)) None []
     = Some (Some (Error (Some ''[429 Too Many Requests] Resource has been exhausted'')),
             [''gemini-3-flash-preview'', ''gemini-2.5-flash''])"
    by code_simp
  have ok: "scripted_provider outcome_third_answers
      (GEMINI_MODELS ! ((currentModelIndex new_ChatService + 2) mod length GEMINI_MODELS))
      ''first prompt'' [''gemini-3-flash-preview'', ''gemini-2.5-flash'']
     = (Inr ''answer of model 2'',
        [''gemini-3-flash-preview'', ''gemini-2.5-flash'', ''gemini-2.0-flash''])"
    by code_simp
  have idx: "(currentModelIndex new_ChatService + 2) mod length GEMINI_MODELS = 2" by code_simp
  have upd: "new_ChatService\<lparr>currentModelIndex := 2\<rparr> = \<lparr>currentModelIndex = 2\<rparr>"
    by (simp add: new_ChatService_def)
  have m2: "GEMINI_MODELS ! 2 = ''gemini-2.0-flash''" by code_simp
  from fallback_first_success[OF k run ok] show ?thesis
    unfolding idx upd m2 by (metis append_Nil)
qed

lemma rate_limited_run_last:
  "rate_limited_run genAI prompt ms lastError w = Some (lastError', w') \<Longrightarrow> ms \<noteq> [] \<Longrightarrow>
   \<exists>e. lastError' = Some e \<and> isRateLimitError e"
proof (induction ms arbitrary: lastError w)
  case Nil
  then show ?case by simp
next
  case (Cons m ms)
  obtain r w1 where g: "genAI m prompt w = (r, w1)" by (cases "genAI m prompt w")
  from Cons.prems(1) g obtain e where r: "r = Inl e" and rl: "isRateLimitError e"
    and rest: "rate_limited_run genAI prompt ms (Some e) w1 = Some (lastError', w')"
    by (auto split: sum.splits if_splits)
  show ?case
  proof (cases "ms = []")
    case True
    then show ?thesis using rest rl by auto
  next
    case False
    then show ?thesis using Cons.IH[OF rest] by simp
  qed
qed

lemma attempt_order_nonempty: "0 < k \<Longrightarrow> attempt_order start k \<noteq> []"
  by (simp add: attempt_order_def)

text \<open>
  C2, as amended. When all \<open>n\<close> candidates, asked in the order of the loop, fail with
  rate-limit errors, \<^verbatim>\<open>generateWithFallback\<close> throws one error, the last of them, and asks
  nobody else. \<^verbatim>\<open>sendMessage\<close> reports it as the exception "All AI models are currently rate
  limited" with status 429, unless the message of that error contains \<^verbatim>\<open>API_KEY\<close>: the test
  for the key comes first, and the report is then "Invalid API key configuration" with
  status 500.
\<close>

theorem all_rate_limited:
  fixes genAI :: "'w provider"
  assumes "rate_limited_run genAI prompt
             (map (nth GEMINI_MODELS) (attempt_order (currentModelIndex this) (length GEMINI_MODELS)))
             None w = Some (lastError, w')"
    and "prompt = fullPrompt configs userMessage (case history of None \<Rightarrow> [] | Some h \<Rightarrow> h)
                    (case language of None \<Rightarrow> english | Some l \<Rightarrow> l)"
  shows "\<exists>e. lastError = Some e \<and> isRateLimitError e
           \<and> generateWithFallback genAI prompt this w = (Inl e, this, w')
           \<and> sendMessage configs genAI userMessage history language this w =
               (Inl (if (case js_error.message e of None \<Rightarrow> False | Some m \<Rightarrow> str_includes m ''API_KEY'')
                     then HttpException ''Invalid API key configuration'' 500
                     else HttpException
                            ''All AI models are currently rate limited. Please try again later.'' 429),
                this, w')"
proof -
  have ne: "map (nth GEMINI_MODELS) (attempt_order (currentModelIndex this) (length GEMINI_MODELS)) \<noteq> []"
    using attempt_order_nonempty[of "length GEMINI_MODELS"] by (simp add: length_GEMINI_MODELS)
  from rate_limited_run_last[OF assms(1) ne] obtain e where
    e: "lastError = Some e" and rl: "isRateLimitError e" by blast
  have "generateWithFallback genAI prompt this w =
        fallback_loop GEMINI_MODELS genAI prompt (currentModelIndex this) (length GEMINI_MODELS)
          lastError this w'"
    using assms(1) by (intro generateWithFallback_skip) simp_all
  also have "\<dots> = (Inl e, this, w')"
    using e by (subst fallback_loop.simps) simp
  finally have g: "generateWithFallback genAI prompt this w = (Inl e, this, w')" .
  have "sendMessage configs genAI userMessage history language this w =
          (Inl (classifyError e), this, w')"
    using g unfolding assms(2) by (simp add: sendMessage_def)
  then show ?thesis using e rl g
    by (auto simp: classifyError_def INTERNAL_SERVER_ERROR_def TOO_MANY_REQUESTS_def)
qed

theorem all_rate_limited_witness:
  "isRateLimitError (Error (Some ''Quota exceeded''))
   \<and> generateWithFallback (scripted_provider outcome_all_limited)
        (fullPrompt test_configs ''hello'' [] english) new_ChatService [] =
       (Inl (Error (Some ''Quota exceeded'')), new_ChatService,
        [''gemini-3-flash-preview'', ''gemini-2.5-flash'', ''gemini-2.0-flash''])
   \<and> sendMessage test_configs (scripted_provider outcome_all_limited) ''hello'' None None
        new_ChatService [] =
       (Inl (HttpException ''All AI models are currently rate limited. Please try again later.'' 429),
        new_ChatService, [''gemini-3-flash-preview'', ''gemini-2.5-flash'', ''gemini-2.0-flash''])"
proof -
  have run: "rate_limited_run (scripted_provider outcome_all_limited) p
      (map (nth GEMINI_MODELS)
         (attempt_order (currentModelIndex new_ChatService) (length GEMINI_MODELS))) None []
     = Some (Some (Error (Some ''Quota exceeded'')),
             [''gemini-3-flash-preview'', ''gemini-2.5-flash'', ''gemini-2.0-flash''])" for p
    by code_simp
  have key: "\<not> str_includes ''Quota exceeded'' ''API_KEY''" by code_simp
  have rl: "isRateLimitError (Error (Some ''Quota exceeded''))" by code_simp
  from all_rate_limited[OF run refl, where configs = test_configs and userMessage = "''hello''"
      and history = None and language = None] key rl
  show ?thesis by simp
qed

text \<open>
  C2 as stated fails: three rate-limit errors whose message names \<^verbatim>\<open>API_KEY\<close> are not
  reported as the rate-limited condition.
\<close>

theorem all_rate_limited_counterexample:
  "rate_limited_run (scripted_provider outcome_key_quota) ''any prompt''
      (map (nth GEMINI_MODELS) (attempt_order 0 3)) None [] =
     Some (Some (Error (Some ''[429 Too Many Requests] quota exceeded for API_KEY'')),
           [''gemini-3-flash-preview'', ''gemini-2.5-flash'', ''gemini-2.0-flash''])
   \<and> sendMessage test_configs (scripted_provider outcome_key_quota) ''hello'' None None
         new_ChatService [] =
       (Inl (HttpException ''Invalid API key configuration'' 500), new_ChatService,
        [''gemini-3-flash-preview'', ''gemini-2.5-flash'', ''gemini-2.0-flash''])
   \<and> HttpException ''Invalid API key configuration'' 500 \<noteq>
       HttpException ''All AI models are currently rate limited. Please try again later.'' 429"
  by code_simp

lemma fallback_loop_result:
  "fallback_loop models genAI prompt start i lastError this w = (r, this', w') \<Longrightarrow>
   (case r of
      Inl e \<Rightarrow> this' = this
    | Inr answer \<Rightarrow>
        \<exists>j w0. i \<le> j \<and> j < length models
          \<and> this' = this\<lparr>currentModelIndex := (start + j) mod length models\<rparr>
          \<and> genAI (models ! ((start + j) mod length models)) prompt w0 = (Inr answer, w'))"
proof (induction "length models - i" arbitrary: i lastError w)
  case 0
  then show ?case by (subst (asm) fallback_loop.simps) auto
next
  case (Suc d)
  then have lt: "i < length models" by simp
  have d: "d = length models - (i + 1)" using Suc.hyps(2) by simp
  let ?m = "models ! ((start + i) mod length models)"
  obtain x w1 where g: "genAI ?m prompt w = (x, w1)" by (cases "genAI ?m prompt w")
  show ?case
  proof (cases x)
    case (Inr answer)
    with Suc.prems lt g have "r = Inr answer" "w' = w1"
      "this' = this\<lparr>currentModelIndex := (start + i) mod length models\<rparr>"
      by (subst (asm) fallback_loop.simps; simp add: Let_def)+
    with lt g Inr show ?thesis by auto
  next
    case (Inl e)
    show ?thesis
    proof (cases "isRateLimitError e")
      case False
      with Suc.prems lt g Inl have "r = Inl e" "this' = this"
        by (subst (asm) fallback_loop.simps; simp add: Let_def)+
      then show ?thesis by simp
    next
      case True
      with Suc.prems lt g Inl
      have "fallback_loop models genAI prompt start (i + 1) (Some e) this w1 = (r, this', w')"
        by (subst (asm) fallback_loop.simps) (simp add: Let_def)
      from Suc.hyps(1)[OF d this] show ?thesis
        by (cases r) (auto intro: Suc_leD)
    qed
  qed
qed

lemma generateWithFallback_result:
  assumes "generateWithFallback genAI prompt this w = (r, this', w')"
  shows "case r of
           Inl e \<Rightarrow> this' = this
         | Inr answer \<Rightarrow>
             currentModelIndex this' < length GEMINI_MODELS
             \<and> (\<exists>w0. genAI (GEMINI_MODELS ! currentModelIndex this') prompt w0 = (Inr answer, w'))"
proof (cases r)
  case (Inl e)
  then show ?thesis
    using fallback_loop_result[OF assms[unfolded generateWithFallback_def]] by simp
next
  case (Inr answer)
  with fallback_loop_result[OF assms[unfolded generateWithFallback_def]]
  obtain j w0 where "j < length GEMINI_MODELS"
    and "this' = this\<lparr>currentModelIndex := (currentModelIndex this + j) mod length GEMINI_MODELS\<rparr>"
    and "genAI (GEMINI_MODELS ! ((currentModelIndex this + j) mod length GEMINI_MODELS)) prompt w0
           = (Inr answer, w')"
    by auto
  then show ?thesis using Inr by (auto simp: length_GEMINI_MODELS)
qed

lemma sendMessage_result:
  assumes "sendMessage configs genAI userMessage history language this w = (r, this', w')"
  shows "case r of
           Inl e \<Rightarrow> this' = this
         | Inr dto \<Rightarrow> currentModelIndex this' < length GEMINI_MODELS"
proof -
  let ?p = "fullPrompt configs userMessage (case history of None \<Rightarrow> [] | Some h \<Rightarrow> h)
              (case language of None \<Rightarrow> english | Some l \<Rightarrow> l)"
  obtain x s z where g: "generateWithFallback genAI ?p this w = (x, s, z)"
    by (metis prod_cases3)
  from generateWithFallback_result[OF g] assms g show ?thesis
    by (cases x) (auto simp: sendMessage_def)
qed

lemma reachable_cursor:
  "reachable configs genAI sw \<Longrightarrow> currentModelIndex (fst sw) < length GEMINI_MODELS"
proof (induction rule: reachable.induct)
  case (start w)
  then show ?case by (simp add: new_ChatService_def length_GEMINI_MODELS)
next
  case (world this w w')
  then show ?case by simp
next
  case (request this w userMessage history language r this' w')
  from sendMessage_result[OF request.hyps(2)] request.IH show ?case
    by (cases r) auto
qed

text \<open>
  C7. The candidate list is not empty. The cursor is 0 in a new service and is a valid
  position of the list in every state the running service reaches. A call that throws
  leaves the service as it was; a call that returns an answer leaves the cursor at a valid
  position, the one of the model that gave this answer. Nothing sets the cursor back.
\<close>

theorem cursor_invariant:
  fixes genAI :: "'w provider"
  shows "GEMINI_MODELS \<noteq> []
     \<and> currentModelIndex new_ChatService = 0
     \<and> (reachable configs genAI (this, w) \<longrightarrow> currentModelIndex this < length GEMINI_MODELS)
     \<and> (\<forall>r this' w'. generateWithFallback genAI prompt this w = (r, this', w') \<longrightarrow>
          (case r of
             Inl e \<Rightarrow> this' = this
           | Inr answer \<Rightarrow>
               currentModelIndex this' < length GEMINI_MODELS
               \<and> (\<exists>w0. genAI (GEMINI_MODELS ! currentModelIndex this') prompt w0 = (Inr answer, w'))))
     \<and> (\<forall>r this' w'. sendMessage configs genAI userMessage history language this w = (r, this', w') \<longrightarrow>
          (case r of
             Inl e \<Rightarrow> this' = this
           | Inr dto \<Rightarrow> currentModelIndex this' < length GEMINI_MODELS))"
proof (intro conjI allI impI)
  show "GEMINI_MODELS \<noteq> []" by (simp add: GEMINI_MODELS_def)
  show "currentModelIndex new_ChatService = 0" by (simp add: new_ChatService_def)
  show "currentModelIndex this < length GEMINI_MODELS" if "reachable configs genAI (this, w)"
    using reachable_cursor[OF that] by simp
  show "case r of
          Inl e \<Rightarrow> this' = this
        | Inr answer \<Rightarrow>
            currentModelIndex this' < length GEMINI_MODELS
            \<and> (\<exists>w0. genAI (GEMINI_MODELS ! currentModelIndex this') prompt w0 = (Inr answer, w'))"
    if "generateWithFallback genAI prompt this w = (r, this', w')" for r this' w'
    using generateWithFallback_result[OF that] .
  show "case r of
          Inl e \<Rightarrow> this' = this
        | Inr dto \<Rightarrow> currentModelIndex this' < length GEMINI_MODELS"
    if "sendMessage configs genAI userMessage history language this w = (r, this', w')" for r this' w'
    using sendMessage_result[OF that] .
qed

theorem cursor_invariant_witness:
  "reachable test_configs (scripted_provider outcome_third_answers)
     (\<lparr>currentModelIndex = 2\<rparr>, [''gemini-3-flash-preview'', ''gemini-2.5-flash'', ''gemini-2.0-flash''])
   \<and> currentModelIndex \<lparr>currentModelIndex = 2\<rparr> < length GEMINI_MODELS"
proof -
  have g: "generateWithFallback (scripted_provider outcome_third_answers) p new_ChatService [] =
      (Inr ''answer of model 2'', \<lparr>currentModelIndex = 2\<rparr>,
       [''gemini-3-flash-preview'', ''gemini-2.5-flash'', ''gemini-2.0-flash''])" for p
    by code_simp
  have s: "sendMessage test_configs (scripted_provider outcome_third_answers) ''hello'' None None new_ChatService [] =
      (Inr (parseResponse ''hello'' ''answer of model 2''), \<lparr>currentModelIndex = 2\<rparr>,
       [''gemini-3-flash-preview'', ''gemini-2.5-flash'', ''gemini-2.0-flash''])"
    by (simp add: sendMessage_def g)
  have r: "reachable test_configs (scripted_provider outcome_third_answers)
     (\<lparr>currentModelIndex = 2\<rparr>, [''gemini-3-flash-preview'', ''gemini-2.5-flash'', ''gemini-2.0-flash''])"
    by (rule reachable.request[OF reachable.start s])
  from cursor_invariant[of test_configs "scripted_provider outcome_third_answers" "\<lparr>currentModelIndex = 2\<rparr>"
      "[''gemini-3-flash-preview'', ''gemini-2.5-flash'', ''gemini-2.0-flash'']"] r
  show ?thesis by blast
qed

subsection \<open>The classification of errors\<close>

lemma str_includes_sublist: "str_includes s p = sublist p s"
  by (induction s) (simp_all add: sublist_Cons_right)

lemma str_includes_iff: "str_includes s p \<longleftrightarrow> (\<exists>before after. s = before @ p @ after)"
  by (simp add: str_includes_sublist sublist_def)

lemma toLowerCase_append: "toLowerCase (a @ b) = toLowerCase a @ toLowerCase b"
  by (simp add: toLowerCase_def)

lemma includes_lower_iff:
  assumes "toLowerCase marker = marker"
  shows "str_includes (toLowerCase msg) marker \<longleftrightarrow> contains_ignoring_case msg marker"
proof
  assume "str_includes (toLowerCase msg) marker"
  then obtain a b where "map toLowerCase_char msg = a @ marker @ b"
    by (auto simp: str_includes_iff toLowerCase_def)
  then have "\<exists>us vs. msg = us @ vs \<and> a = map toLowerCase_char us
      \<and> marker @ b = map toLowerCase_char vs"
    by (simp add: map_eq_append_conv)
  then obtain before rest where m1: "msg = before @ rest"
    and m2: "marker @ b = map toLowerCase_char rest"
    by blast
  from m2 have "\<exists>us vs. rest = us @ vs \<and> marker = map toLowerCase_char us
      \<and> b = map toLowerCase_char vs"
    by (simp add: append_eq_map_conv)
  then obtain part after where "rest = part @ after" and "map toLowerCase_char part = marker"
    by auto
  with m1 assms show "contains_ignoring_case msg marker"
    unfolding contains_ignoring_case_def toLowerCase_def by metis
next
  assume "contains_ignoring_case msg marker"
  then obtain before part after where "msg = before @ part @ after"
    and "toLowerCase part = marker"
    using assms by (auto simp: contains_ignoring_case_def)
  then have "toLowerCase msg = toLowerCase before @ marker @ toLowerCase after"
    by (simp add: toLowerCase_append)
  then show "str_includes (toLowerCase msg) marker"
    unfolding str_includes_iff by blast
qed

text \<open>
  C8. An error is classified as a rate-limit error exactly when it has a message and that
  message contains, letter case ignored, one of \<^verbatim>\<open>429\<close>, \<^verbatim>\<open>too many requests\<close>,
  \<^verbatim>\<open>resource exhausted\<close>, \<^verbatim>\<open>quota\<close> and \<^verbatim>\<open>rate limit\<close>.
\<close>

theorem isRateLimitError_iff:
  "isRateLimitError e \<longleftrightarrow>
     (\<exists>msg. js_error.message e = Some msg
        \<and> (contains_ignoring_case msg ''429''
           \<or> contains_ignoring_case msg ''too many requests''
           \<or> contains_ignoring_case msg ''resource exhausted''
           \<or> contains_ignoring_case msg ''quota''
           \<or> contains_ignoring_case msg ''rate limit''))"
proof (cases "js_error.message e")
  case None
  have "\<not> str_includes [] ''429''" "\<not> str_includes [] ''too many requests''"
    "\<not> str_includes [] ''resource exhausted''" "\<not> str_includes [] ''quota''"
    "\<not> str_includes [] ''rate limit''"
    by simp_all
  then show ?thesis using None by (simp add: isRateLimitError_def)
next
  case (Some msg)
  have l1: "toLowerCase ''429'' = ''429''" by code_simp
  have l2: "toLowerCase ''too many requests'' = ''too many requests''" by code_simp
  have l3: "toLowerCase ''resource exhausted'' = ''resource exhausted''" by code_simp
  have l4: "toLowerCase ''quota'' = ''quota''" by code_simp
  have l5: "toLowerCase ''rate limit'' = ''rate limit''" by code_simp
  show ?thesis
    unfolding isRateLimitError_def Some
    by (simp only: Let_def option.simps includes_lower_iff[OF l1] includes_lower_iff[OF l2]
          includes_lower_iff[OF l3] includes_lower_iff[OF l4] includes_lower_iff[OF l5]) blast
qed

theorem isRateLimitError_iff_witness:
  "isRateLimitError (Error (Some ''Error: RESOURCE Exhausted (try later)''))
   \<and> \<not> isRateLimitError (Error (Some ''[400 Bad Request] invalid argument''))
   \<and> \<not> isRateLimitError (Error None)"
proof -
  have low: "toLowerCase ''RESOURCE Exhausted'' = toLowerCase ''resource exhausted''" by code_simp
  have "''Error: RESOURCE Exhausted (try later)'' = ''Error: '' @ ''RESOURCE Exhausted'' @ '' (try later)''"
    by simp
  with low have "contains_ignoring_case ''Error: RESOURCE Exhausted (try later)'' ''resource exhausted''"
    unfolding contains_ignoring_case_def by blast
  then have a: "isRateLimitError (Error (Some ''Error: RESOURCE Exhausted (try later)''))"
    using isRateLimitError_iff[of "Error (Some ''Error: RESOURCE Exhausted (try later)'')"] by simp
  have b: "\<not> isRateLimitError (Error (Some ''[400 Bad Request] invalid argument''))" by code_simp
  have c: "\<not> isRateLimitError (Error None)"
    using isRateLimitError_iff[of "Error None"] by simp
  from a b c show ?thesis by simp
qed

subsection \<open>The prompt\<close>

lemma history_line_render:
  "history_line msg = (case render_turn msg of None \<Rightarrow> [] | Some line \<Rightarrow> line)"
  "render_turn msg = Some line \<Longrightarrow> line \<noteq> []"
  by (auto simp: history_line_def render_turn_def split: role.splits option.splits if_splits)

lemma lines_map_filter:
  "filter (\<lambda>line. line \<noteq> []) (map history_line turns) = List.map_filter render_turn turns"
proof (induction turns)
  case Nil
  then show ?case by simp
next
  case (Cons msg turns)
  then show ?case
    by (cases "render_turn msg") (auto simp: history_line_render)
qed

lemma historyContext_recent:
  "historyContext h =
     (if drop (length h - 10) h = [] then ''This is the start of the conversation.''
      else join nl (List.map_filter render_turn (drop (length h - 10) h)))"
proof -
  have "(0 < length (drop (length h - 10) h)) = (drop (length h - 10) h \<noteq> [])"
    by (rule length_greater_0_conv)
  then show ?thesis
    unfolding historyContext_def Let_def lines_map_filter by auto
qed

lemma render_turn_head:
  "render_turn msg = Some line \<Longrightarrow> prefix ''S'' line \<or> prefix ''Tu'' line"
  by (auto simp: render_turn_def split: role.splits option.splits if_splits)

lemma join_head: "join sep (x # xs) = x @ (if xs = [] then [] else sep @ join sep xs)"
  by (cases xs) simp_all

lemma rendered_not_marker:
  "join nl (List.map_filter render_turn turns) \<noteq> ''This is the start of the conversation.''"
proof (cases "List.map_filter render_turn turns")
  case Nil
  then show ?thesis by simp
next
  case (Cons line rest)
  then have "line \<in> set (List.map_filter render_turn turns)" by simp
  then obtain msg where "render_turn msg = Some line"
    by (auto simp: List.map_filter_def)
  from render_turn_head[OF this] have "prefix ''S'' line \<or> prefix ''Tu'' line" .
  then have "prefix ''S'' (join nl (line # rest)) \<or> prefix ''Tu'' (join nl (line # rest))"
    unfolding join_head[of nl line rest] by (auto simp: prefix_def)
  then show ?thesis unfolding Cons by (auto simp: prefix_def)
qed

text \<open>
  C6, as amended. Every history splits into earlier turns and the turns kept, which are its
  last 10 (all of them when there are fewer), in their order. The history context, and with
  it the prompt that is built, is made of the kept turns alone: one line
  \<^verbatim>\<open>Student: <content>\<close> for a user turn, one line \<^verbatim>\<open>Tutor: <reply>\<close> for an assistant turn
  with a non-empty reply, nothing for any other turn, the lines joined by line feeds. Turns
  before the last 10 change neither the context nor the prompt. The marker of the start of
  the conversation stands in exactly when the history is empty; kept turns that all render
  nothing give the empty context.
\<close>

theorem history_window:
  "(\<exists>earlier kept. h = earlier @ kept \<and> length kept = min 10 (length h)
      \<and> historyContext h =
          (if h = [] then ''This is the start of the conversation.''
           else join nl (List.map_filter render_turn kept))
      \<and> fullPrompt configs userMessage h language =
          getSystemPrompt configs language @ nl @ nl @ ''Conversation History:'' @ nl @
          (if h = [] then ''This is the start of the conversation.''
           else join nl (List.map_filter render_turn kept)) @
          nl @ nl @ ''Student: '' @ userMessage @ nl @ nl @ ''Tutor (respond in JSON format):'')
   \<and> (historyContext h = ''This is the start of the conversation.'' \<longleftrightarrow> h = [])
   \<and> (length recent = 10 \<longrightarrow>
         historyContext (dropped @ recent) = historyContext recent
         \<and> fullPrompt configs userMessage (dropped @ recent) language =
             fullPrompt configs userMessage recent language)"
proof (intro conjI)
  let ?kept = "drop (length h - 10) h"
  have split: "h = take (length h - 10) h @ ?kept" by simp
  have len: "length ?kept = min 10 (length h)" by auto
  have "length h - 10 < length h \<or> h = []" by (cases h) auto
  then have e: "(?kept = []) = (h = [])" by (auto simp: not_le[symmetric])
  have ctx: "historyContext h =
          (if h = [] then ''This is the start of the conversation.''
           else join nl (List.map_filter render_turn ?kept))"
    using historyContext_recent[of h] e by simp
  have "fullPrompt configs userMessage h language =
          getSystemPrompt configs language @ nl @ nl @ ''Conversation History:'' @ nl @
          (if h = [] then ''This is the start of the conversation.''
           else join nl (List.map_filter render_turn ?kept)) @
          nl @ nl @ ''Student: '' @ userMessage @ nl @ nl @ ''Tutor (respond in JSON format):''"
    unfolding fullPrompt_def ctx by simp
  with split len ctx
  show "\<exists>earlier kept. h = earlier @ kept \<and> length kept = min 10 (length h)
      \<and> historyContext h =
          (if h = [] then ''This is the start of the conversation.''
           else join nl (List.map_filter render_turn kept))
      \<and> fullPrompt configs userMessage h language =
          getSystemPrompt configs language @ nl @ nl @ ''Conversation History:'' @ nl @
          (if h = [] then ''This is the start of the conversation.''
           else join nl (List.map_filter render_turn kept)) @
          nl @ nl @ ''Student: '' @ userMessage @ nl @ nl @ ''Tutor (respond in JSON format):''"
    by blast
  show "historyContext h = ''This is the start of the conversation.'' \<longleftrightarrow> h = []"
    using ctx rendered_not_marker[of ?kept] by (cases "h = []") simp_all
  show "length recent = 10 \<longrightarrow>
         historyContext (dropped @ recent) = historyContext recent
         \<and> fullPrompt configs userMessage (dropped @ recent) language =
             fullPrompt configs userMessage recent language"
    by (simp add: historyContext_recent fullPrompt_def)
qed

theorem history_window_witness:
  "length late_turns = 10
   \<and> historyContext (early_turns @ late_turns) =
       ''Tutor: t6\<newline>Student: t7\<newline>Student: t9\<newline>Tutor: t10\<newline>Student: t11\<newline>Student: t13\<newline>Tutor: t14\<newline>Student: t15''
   \<and> fullPrompt test_configs ''hello'' (early_turns @ late_turns) english =
       fullPrompt test_configs ''hello'' late_turns english
   \<and> fullPrompt test_configs ''hello'' late_turns english =
       getSystemPrompt test_configs english @ nl @ nl @ ''Conversation History:'' @ nl @
       ''Tutor: t6\<newline>Student: t7\<newline>Student: t9\<newline>Tutor: t10\<newline>Student: t11\<newline>Student: t13\<newline>Tutor: t14\<newline>Student: t15'' @
       nl @ nl @ ''Student: hello'' @ nl @ nl @ ''Tutor (respond in JSON format):''
   \<and> historyContext [] = ''This is the start of the conversation.''"
proof -
  have len: "length late_turns = 10" by (simp add: late_turns_def)
  note hw = history_window[where recent = late_turns and dropped = early_turns
      and configs = test_configs and userMessage = "''hello''" and language = english]
  have same: "historyContext (early_turns @ late_turns) = historyContext late_turns"
    and samep: "fullPrompt test_configs ''hello'' (early_turns @ late_turns) english =
       fullPrompt test_configs ''hello'' late_turns english"
    using hw[of "[]"] len by blast+
  have out: "historyContext late_turns =
       ''Tutor: t6\<newline>Student: t7\<newline>Student: t9\<newline>Tutor: t10\<newline>Student: t11\<newline>Student: t13\<newline>Tutor: t14\<newline>Student: t15''"
    by code_simp
  have full: "fullPrompt test_configs ''hello'' late_turns english =
       getSystemPrompt test_configs english @ nl @ nl @ ''Conversation History:'' @ nl @
       ''Tutor: t6\<newline>Student: t7\<newline>Student: t9\<newline>Tutor: t10\<newline>Student: t11\<newline>Student: t13\<newline>Tutor: t14\<newline>Student: t15'' @
       nl @ nl @ ''Student: hello'' @ nl @ nl @ ''Tutor (respond in JSON format):''"
    unfolding fullPrompt_def out by simp
  have empty: "historyContext [] = ''This is the start of the conversation.''"
    using history_window[of "[]"] by blast
  from len same samep out full empty show ?thesis by simp
qed

text \<open>
  C6 as stated fails: a history of one assistant turn without a reply contributes no line,
  yet the context is the empty string and the prompt does not hold the marker.
\<close>

theorem history_window_counterexample:
  "List.map_filter render_turn [silent_turn] = []
   \<and> historyContext [silent_turn] = []
   \<and> historyContext [silent_turn] \<noteq> ''This is the start of the conversation.''
   \<and> fullPrompt test_configs ''hello'' [silent_turn] english =
       getSystemPrompt test_configs english @ nl @ nl @ ''Conversation History:'' @ nl @
       nl @ nl @ ''Student: hello'' @ nl @ nl @ ''Tutor (respond in JSON format):''"
proof -
  have a: "List.map_filter render_turn [silent_turn] = []" by code_simp
  have b: "historyContext [silent_turn] = []" by code_simp
  have c: "fullPrompt test_configs ''hello'' [silent_turn] english =
       getSystemPrompt test_configs english @ nl @ nl @ ''Conversation History:'' @ nl @
       nl @ nl @ ''Student: hello'' @ nl @ nl @ ''Tutor (respond in JSON format):''"
    unfolding fullPrompt_def b by simp
  from a b c show ?thesis by simp
qed

text \<open>
  C9. Leaving the target language out is the same as passing \<^verbatim>\<open>english\<close>, for the service
  and for the controller: the same prompt is sent, and the result, the error, the service
  and the world afterwards are the same.
\<close>

theorem default_language:
  "sendMessage configs genAI userMessage history None this w =
     sendMessage configs genAI userMessage history (Some english) this w
   \<and> ChatController_sendMessage configs genAI (dto\<lparr>targetLanguage := None\<rparr>) this w =
     ChatController_sendMessage configs genAI (dto\<lparr>targetLanguage := Some english\<rparr>) this w
   \<and> ChatController_sendMessage configs genAI (dto\<lparr>targetLanguage := None\<rparr>) this w =
     sendMessage configs genAI (dto_message dto) (chatHistory dto) None this w"
  by (simp add: sendMessage_def ChatController_sendMessage_def)

subsection \<open>The response\<close>

text \<open>
  C4. Whenever a model has answered, \<^verbatim>\<open>sendMessage\<close> returns and does not throw: the result
  is \<^verbatim>\<open>{ success: true, data }\<close>. When the cleaned answer parses as JSON, the data is the
  parsed value. When it does not, \<^verbatim>\<open>original\<close> and \<^verbatim>\<open>correction\<close> are the user's message,
  \<^verbatim>\<open>reply\<close> is the answer as the model gave it, and \<^verbatim>\<open>correctionPronunciation\<close>,
  \<^verbatim>\<open>explanation\<close> and \<^verbatim>\<open>pronunciation\<close> are the empty string.
\<close>

theorem parse_failure_fallback:
  fixes genAI :: "'w provider"
  assumes "generateWithFallback genAI
             (fullPrompt configs userMessage (case history of None \<Rightarrow> [] | Some h \<Rightarrow> h)
                (case language of None \<Rightarrow> english | Some l \<Rightarrow> l)) this w
           = (Inr answer, this', w')"
  shows "\<exists>dto. sendMessage configs genAI userMessage history language this w = (Inr dto, this', w')
           \<and> dto = parseResponse userMessage answer
           \<and> success dto = True
           \<and> (case JSON_parse (cleanedText answer) of
                 Some parsed \<Rightarrow> data dto = parsed
               | None \<Rightarrow>
                   data dto = JObject
                     [(js_string ''original'', JString (js_string userMessage)),
                      (js_string ''correction'', JString (js_string userMessage)),
                      (js_string ''correctionPronunciation'', JString []),
                      (js_string ''explanation'', JString []),
                      (js_string ''reply'', JString (js_string answer)),
                      (js_string ''pronunciation'', JString [])])"
  using assms
  by (cases "JSON_parse (cleanedText answer)") (simp_all add: sendMessage_def parseResponse_def)

theorem parse_failure_fallback_witness:
  "sendMessage test_configs (scripted_provider (outcome_answer raw_not_json)) ''I go to school''
      None None new_ChatService [] =
     (Inr \<lparr>success = True,
           data = JObject
             [(js_string ''original'', JString (js_string ''I go to school'')),
              (js_string ''correction'', JString (js_string ''I go to school'')),
              (js_string ''correctionPronunciation'', JString []),
              (js_string ''explanation'', JString []),
              (js_string ''reply'', JString (js_string ''I can't help with that'')),
              (js_string ''pronunciation'', JString [])]\<rparr>,
      new_ChatService, [''gemini-3-flash-preview''])"
proof -
  have g: "generateWithFallback (scripted_provider (outcome_answer raw_not_json)) p new_ChatService []
      = (Inr raw_not_json, new_ChatService, [''gemini-3-flash-preview''])" for p
    by code_simp
  have n: "JSON_parse (cleanedText raw_not_json) = None" by code_simp
  from parse_failure_fallback[OF g, where configs = test_configs and userMessage = "''I go to school''"
      and history = None and language = None]
  obtain dto where s: "sendMessage test_configs (scripted_provider (outcome_answer raw_not_json))
      ''I go to school'' None None new_ChatService [] = (Inr dto, new_ChatService, [''gemini-3-flash-preview''])"
    and ok: "success dto = True"
    and d: "(case JSON_parse (cleanedText raw_not_json) of
                 Some parsed \<Rightarrow> data dto = parsed
               | None \<Rightarrow>
                   data dto = JObject
                     [(js_string ''original'', JString (js_string ''I go to school'')),
                      (js_string ''correction'', JString (js_string ''I go to school'')),
                      (js_string ''correctionPronunciation'', JString []),
                      (js_string ''explanation'', JString []),
                      (js_string ''reply'', JString (js_string raw_not_json)),
                      (js_string ''pronunciation'', JString [])])"
    by blast
  from d n ok have "dto = \<lparr>success = True,
           data = JObject
             [(js_string ''original'', JString (js_string ''I go to school'')),
              (js_string ''correction'', JString (js_string ''I go to school'')),
              (js_string ''correctionPronunciation'', JString []),
              (js_string ''explanation'', JString []),
              (js_string ''reply'', JString (js_string ''I can't help with that'')),
              (js_string ''pronunciation'', JString [])]\<rparr>"
    by (cases dto) (simp add: raw_not_json_def)
  with s show ?thesis by simp
qed

lemma fallback_isTutorResponse:
  "isTutorResponse (JObject
             [(js_string ''original'', JString (js_string userMessage)),
              (js_string ''correction'', JString (js_string userMessage)),
              (js_string ''correctionPronunciation'', JString []),
              (js_string ''explanation'', JString []),
              (js_string ''reply'', JString (js_string answer)),
              (js_string ''pronunciation'', JString [])])"
  by (simp add: isTutorResponse_def isPlainString_def json_get_def js_string_def)

text \<open>
  C5, as amended. When the cleaned answer does not parse, every field of the data is a
  string. When it parses, the data is the parsed value itself, unchecked: its six fields
  are strings exactly when the model wrote them so.
\<close>

theorem response_fields:
  "(JSON_parse (cleanedText answer) = None \<longrightarrow>
      isTutorResponse (data (parseResponse userMessage answer)))
   \<and> (JSON_parse (cleanedText answer) = Some parsed \<longrightarrow>
      data (parseResponse userMessage answer) = parsed)
   \<and> (isTutorResponse (data (parseResponse userMessage answer)) \<longleftrightarrow>
        (case JSON_parse (cleanedText answer) of
           None \<Rightarrow> True
         | Some parsed \<Rightarrow> isTutorResponse parsed))"
  using fallback_isTutorResponse[of userMessage answer]
  by (cases "JSON_parse (cleanedText answer)") (simp_all add: parseResponse_def)

theorem response_fields_witness:
  "JSON_parse (cleanedText raw_not_json) = None
   \<and> isTutorResponse (data (parseResponse ''hi'' raw_not_json))
   \<and> JSON_parse (cleanedText raw_fenced_json) =
       Some (JObject
         [(js_string ''original'', JString (js_string ''hi'')),
          (js_string ''correction'', JString (js_string ''hi'')),
          (js_string ''correctionPronunciation'', JString (js_string ''/hai/'')),
          (js_string ''explanation'', JString []),
          (js_string ''reply'', JString (js_string ''Hello!'')),
          (js_string ''pronunciation'', JString (js_string ''/helou/''))])
   \<and> data (parseResponse ''hi'' raw_fenced_json) =
       JObject
         [(js_string ''original'', JString (js_string ''hi'')),
          (js_string ''correction'', JString (js_string ''hi'')),
          (js_string ''correctionPronunciation'', JString (js_string ''/hai/'')),
          (js_string ''explanation'', JString []),
          (js_string ''reply'', JString (js_string ''Hello!'')),
          (js_string ''pronunciation'', JString (js_string ''/helou/''))]"
proof -
  have n: "JSON_parse (cleanedText raw_not_json) = None" by code_simp
  have p: "JSON_parse (cleanedText raw_fenced_json) =
       Some (JObject
         [(js_string ''original'', JString (js_string ''hi'')),
          (js_string ''correction'', JString (js_string ''hi'')),
          (js_string ''correctionPronunciation'', JString (js_string ''/hai/'')),
          (js_string ''explanation'', JString []),
          (js_string ''reply'', JString (js_string ''Hello!'')),
          (js_string ''pronunciation'', JString (js_string ''/helou/''))])"
    by code_simp
  from response_fields[where answer = raw_not_json and userMessage = "''hi''"] n
  have a: "isTutorResponse (data (parseResponse ''hi'' raw_not_json))" by blast
  from response_fields[where answer = raw_fenced_json and userMessage = "''hi''"] p
  have b: "data (parseResponse ''hi'' raw_fenced_json) =
       JObject
         [(js_string ''original'', JString (js_string ''hi'')),
          (js_string ''correction'', JString (js_string ''hi'')),
          (js_string ''correctionPronunciation'', JString (js_string ''/hai/'')),
          (js_string ''explanation'', JString []),
          (js_string ''reply'', JString (js_string ''Hello!'')),
          (js_string ''pronunciation'', JString (js_string ''/helou/''))]"
    by blast
  from n a p b show ?thesis by blast
qed

text \<open>
  C5 as stated fails: an answer that is a JSON object with \<^verbatim>\<open>"explanation":null\<close> is passed
  on with that \<^verbatim>\<open>null\<close>.
\<close>

theorem response_fields_counterexample:
  "JSON_parse (cleanedText raw_null_field) =
       Some (JObject
         [(js_string ''original'', JString (js_string ''hi'')),
          (js_string ''correction'', JString (js_string ''hi'')),
          (js_string ''correctionPronunciation'', JString (js_string ''/hai/'')),
          (js_string ''explanation'', JNull),
          (js_string ''reply'', JString (js_string ''Hello!'')),
          (js_string ''pronunciation'', JString (js_string ''/helou/''))])
   \<and> json_get (data (parseResponse ''hi'' raw_null_field)) ''explanation'' = Some JNull
   \<and> \<not> isTutorResponse (data (parseResponse ''hi'' raw_null_field))"
  by code_simp

declare replace_fence.simps [simp del]

lemma replace_fence_Nil: "replace_fence fence [] = []"
  by (simp add: replace_fence.simps)

lemma replace_fence_no_match:
  "\<not> prefix ''```'' (c # cs) \<Longrightarrow> replace_fence ''```'' (c # cs) = c # replace_fence ''```'' cs"
  by (subst replace_fence.simps(2)) (simp only: simp_thms if_False)

lemma replace_fence_match:
  "prefix ''```'' s \<Longrightarrow>
   \<exists>s'. length s' < length s \<and> replace_fence ''```'' s = replace_fence ''```'' s'"
proof -
  assume p: "prefix ''```'' s"
  then obtain r where s: "s = ''```'' @ r" by (auto simp: prefix_def)
  show ?thesis
  proof (cases r)
    case Nil
    then show ?thesis using s
      by (intro exI[of _ "[]"]) (simp add: replace_fence.simps)
  next
    case (Cons d r')
    show ?thesis
    proof (cases "d = CHR 0x0A")
      case True
      then show ?thesis using s Cons
        by (intro exI[of _ r']) (simp add: replace_fence.simps(2)[of _ "CHR 0x60"])
    next
      case False
      then show ?thesis using s Cons
        by (intro exI[of _ "d # r'"]) (simp add: replace_fence.simps(2)[of _ "CHR 0x60"])
    qed
  qed
qed

lemma replace_fence_head1:
  assumes h: "prefix ''`'' (replace_fence ''```'' s)"
  shows "prefix ''`'' s"
proof (cases s)
  case Nil
  then show ?thesis using h by (simp add: replace_fence_Nil)
next
  case (Cons c cs)
  show ?thesis
  proof (cases "prefix ''```'' s")
    case True
    then show ?thesis by (auto simp: prefix_def)
  next
    case False
    then have "replace_fence ''```'' s = c # replace_fence ''```'' cs"
      unfolding Cons by (rule replace_fence_no_match)
    with Cons h show ?thesis by simp
  qed
qed

lemma replace_fence_head2:
  assumes h: "prefix ''``'' (replace_fence ''```'' s)"
  shows "prefix ''``'' s"
proof (cases s)
  case Nil
  then show ?thesis using h by (simp add: replace_fence_Nil)
next
  case (Cons c cs)
  show ?thesis
  proof (cases "prefix ''```'' s")
    case True
    then show ?thesis by (auto simp: prefix_def)
  next
    case False
    then have "replace_fence ''```'' s = c # replace_fence ''```'' cs"
      unfolding Cons by (rule replace_fence_no_match)
    with h have c: "c = CHR 0x60" and "prefix ''`'' (replace_fence ''```'' cs)"
      by auto
    from replace_fence_head1[OF this(2)] c Cons show ?thesis by simp
  qed
qed

lemma replace_fence_clean: "\<not> sublist ''```'' (replace_fence ''```'' s)"
proof (induction s rule: length_induct)
  case (1 s)
  show ?case
  proof (cases s)
    case Nil
    then show ?thesis by (simp add: replace_fence_Nil)
  next
    case (Cons c cs)
    show ?thesis
    proof (cases "prefix ''```'' s")
      case True
      from replace_fence_match[OF this] obtain s' where "length s' < length s"
        and "replace_fence ''```'' s = replace_fence ''```'' s'" by blast
      with 1 show ?thesis by simp
    next
      case False
      then have eq: "replace_fence ''```'' s = c # replace_fence ''```'' cs"
        unfolding Cons by (rule replace_fence_no_match)
      have ih: "\<not> sublist ''```'' (replace_fence ''```'' cs)" using 1 Cons by simp
      have "\<not> prefix ''```'' (c # replace_fence ''```'' cs)"
      proof
        assume "prefix ''```'' (c # replace_fence ''```'' cs)"
        then have c: "c = CHR 0x60" and "prefix ''``'' (replace_fence ''```'' cs)" by auto
        from replace_fence_head2[OF this(2)] c have "prefix ''```'' (c # cs)" by simp
        with False Cons show False by auto
      qed
      with ih show ?thesis unfolding eq by (simp add: sublist_Cons_right)
    qed
  qed
qed

lemma sublist_trim: "sublist (trim s) s"
proof -
  have "suffix (dropWhile isWhiteSpace s) s" by (rule suffix_dropWhile)
  moreover have "prefix (rev (dropWhile isWhiteSpace (rev (dropWhile isWhiteSpace s))))
                   (dropWhile isWhiteSpace s)"
    using suffix_dropWhile[of isWhiteSpace "rev (dropWhile isWhiteSpace s)"]
    by (simp add: suffix_to_prefix)
  ultimately show ?thesis unfolding trim_def
    by (meson prefix_imp_sublist suffix_imp_sublist sublist_order.order_trans)
qed

lemma cleanedText_clean: "\<not> str_includes (cleanedText t) ''```''"
proof
  assume "str_includes (cleanedText t) ''```''"
  then have "sublist ''```'' (cleanedText t)" by (simp add: str_includes_sublist)
  then have "sublist ''```'' (replace_fence ''```'' (replace_fence ''```json'' t))"
    unfolding cleanedText_def using sublist_trim sublist_order.order_trans by blast
  then show False using replace_fence_clean by blast
qed


lemma replace_fence_keeps:
  "\<not> sublist fence s \<Longrightarrow> replace_fence fence s = s"
proof (induction s)
  case Nil
  then show ?case by (simp add: replace_fence_Nil)
next
  case (Cons c cs)
  from Cons.prems have np: "\<not> prefix fence (c # cs)" and ns: "\<not> sublist fence cs"
    by (auto simp: sublist_Cons_right)
  have "replace_fence fence (c # cs) = c # replace_fence fence cs"
    using np by (subst replace_fence.simps(2)) (simp only: simp_thms if_False)
  with Cons.IH[OF ns] show ?case by simp
qed

lemma prefix_within:
  assumes "prefix f (xs @ ys)" and "length f \<le> length xs"
  shows "prefix f xs"
  using assms by (auto simp: prefix_append)

lemma replace_fence_first_match:
  assumes ne: "fence \<noteq> []" and nm: "\<not> sublist fence (a @ butlast fence)"
  shows "replace_fence fence (a @ fence @ b) = a @ replace_fence fence (fence @ b)"
  using nm
proof (induction a)
  case Nil
  then show ?case by simp
next
  case (Cons x a)
  have bl: "butlast fence @ [last fence] = fence" using ne by (rule append_butlast_last_id)
  have "((x # a) @ butlast fence) @ (last fence # b) =
        (x # a) @ (butlast fence @ [last fence]) @ b" by simp
  also have "\<dots> = (x # a) @ fence @ b" by (simp only: bl)
  finally have split: "(x # a) @ fence @ b = ((x # a) @ butlast fence) @ (last fence # b)"
    by (rule sym)
  have len: "length fence \<le> length ((x # a) @ butlast fence)" using ne by simp
  have np: "\<not> prefix fence (x # (a @ fence @ b))"
  proof
    assume "prefix fence (x # (a @ fence @ b))"
    then have "prefix fence ((x # a) @ fence @ b)" by simp
    then have "prefix fence (((x # a) @ butlast fence) @ (last fence # b))"
      by (simp only: split)
    from prefix_within[OF this len] have "sublist fence ((x # a) @ butlast fence)"
      by (rule prefix_imp_sublist)
    with Cons.prems show False by simp
  qed
  have ns: "\<not> sublist fence (a @ butlast fence)"
    using Cons.prems by (auto simp: sublist_Cons_right)
  have "replace_fence fence (x # (a @ fence @ b)) = x # replace_fence fence (a @ fence @ b)"
    using np by (subst replace_fence.simps(2)) (simp only: simp_thms if_False)
  with Cons.IH[OF ns] show ?case by simp
qed

lemma replace_fence_at_fence:
  assumes ne: "fence \<noteq> []"
  shows "replace_fence fence fence = []"
    and "replace_fence fence (fence @ CHR 0x0A # b) = replace_fence fence b"
    and "d \<noteq> CHR 0x0A \<Longrightarrow> replace_fence fence (fence @ d # b) = replace_fence fence (d # b)"
proof -
  obtain c cs where f: "fence = c # cs" using ne by (cases fence) auto
  have eq: "replace_fence fence (fence @ r) =
      (case r of [] \<Rightarrow> []
       | d # r' \<Rightarrow> if d = CHR 0x0A then replace_fence fence r' else replace_fence fence (d # r'))"
    for r
  proof -
    have "replace_fence fence (c # (cs @ r)) =
      (case drop (length fence) (c # (cs @ r)) of [] \<Rightarrow> []
       | d # r' \<Rightarrow> if d = CHR 0x0A then replace_fence fence r' else replace_fence fence (d # r'))"
      by (subst replace_fence.simps(2)) (simp add: f)
    then show ?thesis by (simp add: f)
  qed
  show "replace_fence fence fence = []" using eq[of "[]"] by simp
  show "replace_fence fence (fence @ CHR 0x0A # b) = replace_fence fence b"
    using eq[of "CHR 0x0A # b"] by simp
  show "replace_fence fence (fence @ d # b) = replace_fence fence (d # b)" if "d \<noteq> CHR 0x0A"
    using eq[of "d # b"] that by simp
qed

lemma cleanedText_no_fence:
  assumes "\<not> str_includes answer ''```''"
  shows "cleanedText answer = trim answer"
proof -
  have n1: "\<not> sublist ''```'' answer" using assms by (simp add: str_includes_sublist)
  have "sublist ''```'' ''```json''" by (simp add: sublist_def) (metis append_Nil)
  then have n2: "\<not> sublist ''```json'' answer"
    using n1 by (meson sublist_order.order_trans)
  show ?thesis unfolding cleanedText_def
    by (simp add: replace_fence_keeps[OF n2] replace_fence_keeps[OF n1])
qed

text \<open>
  C10. The cleaned text is the answer after both replacements and the trim, and no run of
  three backquotes is left anywhere in it, so no fence with or without \<^verbatim>\<open>json\<close>. A
  replacement keeps a text without the fence as it is; at the first occurrence of the
  fence it keeps what stands before, deletes the fence and, when a line feed follows, this
  one line feed, and goes on with the rest. So an answer without three backquotes is only
  trimmed, and fences are deleted wherever they stand, not only around the text: an answer
  that is valid JSON with three backquotes inside a string value is changed before it is
  parsed, and the data holds the changed string.
\<close>

theorem fence_stripping_is_global:
  "\<not> str_includes (cleanedText answer) ''```''
   \<and> \<not> str_includes (cleanedText answer) ''```json''
   \<and> cleanedText answer = trim (replace_fence ''```'' (replace_fence ''```json'' answer))
   \<and> (\<not> str_includes answer ''```'' \<longrightarrow> cleanedText answer = trim answer)
   \<and> (\<not> str_includes s fence \<longrightarrow> replace_fence fence s = s)
   \<and> (fence \<noteq> [] \<and> \<not> str_includes (a @ butlast fence) fence \<longrightarrow>
         replace_fence fence (a @ fence) = a
         \<and> replace_fence fence (a @ fence @ CHR 0x0A # b) = a @ replace_fence fence b
         \<and> (d \<noteq> CHR 0x0A \<longrightarrow>
               replace_fence fence (a @ fence @ d # b) = a @ replace_fence fence (d # b)))
   \<and> JSON_parse raw_backticks =
       Some (JObject [(js_string ''reply'', JString (js_string ''Write ```x = 1``` here''))])
   \<and> data (parseResponse userMessage raw_backticks) =
       JObject [(js_string ''reply'', JString (js_string ''Write x = 1 here''))]"
proof -
  have a: "\<not> str_includes (cleanedText answer) ''```''" by (rule cleanedText_clean)
  have "sublist ''```'' ''```json''" by (simp add: sublist_def) (metis append_Nil)
  then have b: "\<not> str_includes (cleanedText answer) ''```json''"
    using a unfolding str_includes_sublist by (meson sublist_order.order_trans)
  have c: "cleanedText answer = trim (replace_fence ''```'' (replace_fence ''```json'' answer))"
    by (simp add: cleanedText_def)
  have d: "\<not> str_includes answer ''```'' \<longrightarrow> cleanedText answer = trim answer"
    using cleanedText_no_fence by blast
  have e: "\<not> str_includes s fence \<longrightarrow> replace_fence fence s = s"
    using replace_fence_keeps by (simp add: str_includes_sublist)
  have f: "fence \<noteq> [] \<and> \<not> str_includes (a @ butlast fence) fence \<longrightarrow>
         replace_fence fence (a @ fence) = a
         \<and> replace_fence fence (a @ fence @ CHR 0x0A # b) = a @ replace_fence fence b
         \<and> (d \<noteq> CHR 0x0A \<longrightarrow>
               replace_fence fence (a @ fence @ d # b) = a @ replace_fence fence (d # b))"
  proof (intro impI, elim conjE)
    assume ne: "fence \<noteq> []" and "\<not> str_includes (a @ butlast fence) fence"
    then have nm: "\<not> sublist fence (a @ butlast fence)" by (simp add: str_includes_sublist)
    have 1: "replace_fence fence (a @ fence) = a"
      using replace_fence_first_match[OF ne nm, of "[]"] replace_fence_at_fence(1)[OF ne] by simp
    have 2: "replace_fence fence (a @ fence @ CHR 0x0A # b) = a @ replace_fence fence b"
      using replace_fence_first_match[OF ne nm, of "CHR 0x0A # b"]
        replace_fence_at_fence(2)[OF ne, of b] by simp
    have 3: "replace_fence fence (a @ fence @ d # b) = a @ replace_fence fence (d # b)"
      if "d \<noteq> CHR 0x0A"
      using replace_fence_first_match[OF ne nm, of "d # b"]
        replace_fence_at_fence(3)[OF ne that, of b] by simp
    from 1 2 3 show "replace_fence fence (a @ fence) = a
         \<and> replace_fence fence (a @ fence @ CHR 0x0A # b) = a @ replace_fence fence b
         \<and> (d \<noteq> CHR 0x0A \<longrightarrow>
               replace_fence fence (a @ fence @ d # b) = a @ replace_fence fence (d # b))"
      by blast
  qed
  have g: "JSON_parse raw_backticks =
       Some (JObject [(js_string ''reply'', JString (js_string ''Write ```x = 1``` here''))])"
    by code_simp
  have "JSON_parse (cleanedText raw_backticks) =
       Some (JObject [(js_string ''reply'', JString (js_string ''Write x = 1 here''))])"
    by code_simp
  then have h: "data (parseResponse userMessage raw_backticks) =
       JObject [(js_string ''reply'', JString (js_string ''Write x = 1 here''))]"
    by (simp add: parseResponse_def)
  from a b c d e f g h show ?thesis by blast
qed

theorem fence_stripping_is_global_witness:
  "replace_fence ''```'' (''a'' @ ''```'' @ CHR 0x0A # (nl @ ''b`c``'')) = ''a'' @ nl @ ''b`c``''
   \<and> replace_fence ''```json'' (''see '' @ ''```json'' @ CHR ''{'' # ''}'') = ''see {}''
   \<and> cleanedText (''  no fence ` here '' @ nl) = ''no fence ` here''
   \<and> cleanedText raw_fenced_json =
       ''{'' @ quoted ''original'' @ '':'' @ quoted ''hi'' @ '','' @
               quoted ''correction'' @ '':'' @ quoted ''hi'' @ '','' @
               quoted ''correctionPronunciation'' @ '':'' @ quoted ''/hai/'' @ '','' @
               quoted ''explanation'' @ '':'' @ quoted [] @ '','' @
               quoted ''reply'' @ '':'' @ quoted ''Hello!'' @ '','' @
               quoted ''pronunciation'' @ '':'' @ quoted ''/helou/'' @ ''}''"
proof -
  have n1: "\<not> str_includes (''a'' @ butlast ''```'') ''```''" by code_simp
  have n2: "\<not> str_includes (nl @ ''b`c``'') ''```''" by code_simp
  have ne: "''```'' \<noteq> []" by simp
  note t1 = fence_stripping_is_global[where fence = "''```''" and a = "''a''"
      and b = "nl @ ''b`c``''" and s = "nl @ ''b`c``''"]
  from t1 n1 n2 ne
  have w1: "replace_fence ''```'' (''a'' @ ''```'' @ CHR 0x0A # (nl @ ''b`c``'')) = ''a'' @ nl @ ''b`c``''"
    by metis
  have n3: "\<not> str_includes (''see '' @ butlast ''```json'') ''```json''" by code_simp
  have n4: "\<not> str_includes (CHR ''{'' # ''}'') ''```json''" by code_simp
  have ne2: "''```json'' \<noteq> []" by simp
  have dd: "CHR ''{'' \<noteq> CHR 0x0A" by simp
  note t2 = fence_stripping_is_global[where fence = "''```json''" and a = "''see ''"
      and d = "CHR ''{''" and b = "''}''" and s = "CHR ''{'' # ''}''"]
  from t2 n3 n4 ne2 dd
  have w2: "replace_fence ''```json'' (''see '' @ ''```json'' @ CHR ''{'' # ''}'') = ''see '' @ CHR ''{'' # ''}''"
    by metis
  have n5: "\<not> str_includes (''  no fence ` here '' @ nl) ''```''" by code_simp
  have tr: "trim (''  no fence ` here '' @ nl) = ''no fence ` here''" by code_simp
  from fence_stripping_is_global[where answer = "''  no fence ` here '' @ nl"] n5 tr
  have w3: "cleanedText (''  no fence ` here '' @ nl) = ''no fence ` here''" by metis
  have w4: "cleanedText raw_fenced_json =
       ''{'' @ quoted ''original'' @ '':'' @ quoted ''hi'' @ '','' @
               quoted ''correction'' @ '':'' @ quoted ''hi'' @ '','' @
               quoted ''correctionPronunciation'' @ '':'' @ quoted ''/hai/'' @ '','' @
               quoted ''explanation'' @ '':'' @ quoted [] @ '','' @
               quoted ''reply'' @ '':'' @ quoted ''Hello!'' @ '','' @
               quoted ''pronunciation'' @ '':'' @ quoted ''/helou/'' @ ''}''"
    by code_simp
  from w1 w2 w3 w4 show ?thesis by simp
qed

subsection \<open>The recursion of the JSON parser\<close>

text \<open>
  Every parsing function returns a rest that is shorter than its input. So the length
  tests in \<open>parse_elements\<close> and \<open>parse_members\<close> always succeed, and both functions
  satisfy their equations without the tests.
\<close>

lemma skip_ws_length: "length (skip_ws s) \<le> length s"
  by (simp add: skip_ws_def length_dropWhile_le)

lemma skip_ws_Cons_length: "skip_ws s = d # r \<Longrightarrow> length r < length s"
  using skip_ws_length[of s] by simp

lemma four_or_fewer:
  obtains "xs = []" | a where "xs = [a]" | a b where "xs = [a, b]" | a b c where "xs = [a, b, c]"
  | a b c d r where "xs = a # b # c # d # r"
proof (cases xs)
  case Nil
  then show ?thesis using that by simp
next
  case c1: (Cons a x1)
  show ?thesis
  proof (cases x1)
    case Nil
    then show ?thesis using that c1 by simp
  next
    case c2: (Cons b x2)
    show ?thesis
    proof (cases x2)
      case Nil
      then show ?thesis using that c1 c2 by simp
    next
      case c3: (Cons c x3)
      show ?thesis
      proof (cases x3)
        case Nil
        then show ?thesis using that c1 c2 c3 by simp
      next
        case (Cons d r)
        then show ?thesis using that c1 c2 c3 by simp
      qed
    qed
  qed
qed

lemma parse_string_chars_shorter:
  "parse_string_chars s acc = Some (str, r) \<Longrightarrow> length r < length s"
proof (induction "length s" arbitrary: s acc rule: less_induct)
  case less
  show ?case
  proof (cases s)
    case Nil
    with less.prems show ?thesis by simp
  next
    case (Cons c cs)
    show ?thesis
    proof (cases "c = CHR 0x22")
      case True
      with less.prems Cons show ?thesis by simp
    next
      case nq: False
      show ?thesis
      proof (cases "c = CHR 0x5C")
        case bs: True
        show ?thesis
        proof (cases cs)
          case Nil
          with less.prems Cons nq bs show ?thesis by simp
        next
          case c2: (Cons e r0)
          show ?thesis
          proof (cases "e = CHR ''u''")
            case eu: True
            have "\<exists>r' v. length r' < length s \<and> parse_string_chars r' (acc @ [v]) = Some (str, r)"
            proof (cases r0 rule: four_or_fewer)
              case (5 h1 h2 h3 h4 r')
              with less.prems Cons nq bs c2 eu
              have "\<exists>v. parse_string_chars r' (acc @ [v]) = Some (str, r)"
                by (cases "hex_value h1"; cases "hex_value h2"; cases "hex_value h3";
                    cases "hex_value h4") auto
              then obtain v where "parse_string_chars r' (acc @ [v]) = Some (str, r)" by blast
              moreover have "length r' < length s" using 5 Cons c2 by simp
              ultimately show ?thesis by blast
            qed (use less.prems Cons nq bs c2 eu in simp_all)
            then obtain r' v where "length r' < length s"
              and "parse_string_chars r' (acc @ [v]) = Some (str, r)" by blast
            with less.hyps[of r' "acc @ [v]"] show ?thesis by simp
          next
            case False
            with less.prems Cons nq bs c2 obtain u where
              "parse_string_chars r0 (acc @ [u]) = Some (str, r)"
              by (cases "unescape e") simp_all
            with less.hyps[of r0 "acc @ [u]"] Cons c2 show ?thesis by simp
          qed
        qed
      next
        case False
        with less.prems Cons nq have "parse_string_chars cs (acc @ [of_char c]) = Some (str, r)"
          by (cases "(of_char c :: nat) < 32") simp_all
        with less.hyps[of cs "acc @ [of_char c]"] Cons show ?thesis by simp
      qed
    qed
  qed
qed



lemma parse_digits_shorter: "parse_digits s = Some (ds, r) \<Longrightarrow> length r < length s"
proof -
  assume "parse_digits s = Some (ds, r)"
  then have ne: "takeWhile isDigit s \<noteq> []" and r: "r = dropWhile isDigit s"
    by (auto simp: parse_digits_def Let_def split: if_splits)
  have "length (takeWhile isDigit s) + length (dropWhile isDigit s) = length s"
    by (metis length_append takeWhile_dropWhile_id)
  with ne r show ?thesis by (cases "takeWhile isDigit s") auto
qed

lemma parse_int_shorter: "parse_int s = Some (n, r) \<Longrightarrow> length r < length s"
proof (cases s)
  case Nil
  assume "parse_int s = Some (n, r)"
  with Nil show ?thesis by (simp add: parse_int_def)
next
  case (Cons c cs)
  assume p: "parse_int s = Some (n, r)"
  show ?thesis
  proof (cases "c = CHR ''0''")
    case True
    with p Cons show ?thesis by (simp add: parse_int_def)
  next
    case False
    with p Cons have "parse_digits s = Some (n, r)" by (simp add: parse_int_def)
    then show ?thesis by (rule parse_digits_shorter)
  qed
qed

lemma parse_frac_shorter: "parse_frac s = Some (f, r) \<Longrightarrow> length r \<le> length s"
proof (cases s)
  case Nil
  assume "parse_frac s = Some (f, r)"
  with Nil show ?thesis by (simp add: parse_frac_def)
next
  case (Cons c cs)
  assume p: "parse_frac s = Some (f, r)"
  show ?thesis
  proof (cases "c = CHR ''.''")
    case True
    with p Cons obtain ds where "parse_digits cs = Some (ds, r)"
      by (cases "parse_digits cs") (auto simp: parse_frac_def)
    from parse_digits_shorter[OF this] Cons show ?thesis by simp
  next
    case False
    with p Cons show ?thesis by (simp add: parse_frac_def)
  qed
qed

lemma parse_exp_shorter: "parse_exp s = Some (e, r) \<Longrightarrow> length r \<le> length s"
proof (cases s)
  case Nil
  assume "parse_exp s = Some (e, r)"
  with Nil show ?thesis by (simp add: parse_exp_def)
next
  case (Cons c cs)
  assume p: "parse_exp s = Some (e, r)"
  show ?thesis
  proof (cases "c = CHR ''e'' \<or> c = CHR ''E''")
    case True
    have "\<exists>cs' ds. length cs' \<le> length cs \<and> parse_digits cs' = Some (ds, r)"
    proof (cases cs)
      case Nil
      with p Cons True show ?thesis
        by (cases "parse_digits []") (auto simp: parse_exp_def)
    next
      case c2: (Cons d ds)
      show ?thesis
      proof (cases "d = CHR ''+'' \<or> d = CHR ''-''")
        case sg: True
        with p Cons True c2 obtain x where "parse_digits ds = Some (x, r)"
          by (cases "parse_digits ds") (auto simp: parse_exp_def)
        then show ?thesis using c2 by (intro exI[of _ ds] exI[of _ x]) simp
      next
        case False
        with p Cons True c2 obtain x where "parse_digits cs = Some (x, r)"
          by (cases "parse_digits cs") (auto simp: parse_exp_def)
        then show ?thesis by (intro exI[of _ cs] exI[of _ x]) simp
      qed
    qed
    then obtain cs' ds where "length cs' \<le> length cs" "parse_digits cs' = Some (ds, r)"
      by blast
    with parse_digits_shorter[of cs' ds r] Cons show ?thesis by simp
  next
    case False
    with p Cons show ?thesis by (simp add: parse_exp_def)
  qed
qed

lemma parse_number_shorter:
  assumes "parse_number s = Some (num, r)"
  shows "length r < length s"
proof -
  have "\<exists>s1 n s2 f s3 e. length s1 \<le> length s \<and> parse_int s1 = Some (n, s2)
          \<and> parse_frac s2 = Some (f, s3) \<and> parse_exp s3 = Some (e, r)"
  proof -
    have *: "\<exists>n s2 f s3 e. parse_int s1 = Some (n, s2)
          \<and> parse_frac s2 = Some (f, s3) \<and> parse_exp s3 = Some (e, r)"
      if "(case parse_int s1 of
             None \<Rightarrow> None
           | Some (n, s2) \<Rightarrow>
               (case parse_frac s2 of
                  None \<Rightarrow> None
                | Some (f, s3) \<Rightarrow>
                    (case parse_exp s3 of
                       None \<Rightarrow> None
                     | Some (e, s4) \<Rightarrow> Some (sign @ n @ f @ e, s4)))) = Some (num, r)"
      for sign s1
    proof -
      from that obtain n s2 where i: "parse_int s1 = Some (n, s2)"
        by (cases "parse_int s1") auto
      from that i obtain f s3 where f: "parse_frac s2 = Some (f, s3)"
        by (cases "parse_frac s2") auto
      from that i f obtain e where "parse_exp s3 = Some (e, r)"
        by (cases "parse_exp s3") auto
      with i f show ?thesis by blast
    qed
    show ?thesis
    proof (cases s)
      case Nil
      with assms *[where sign = "[]" and ?s1.0 = "[]"] show ?thesis by (simp add: parse_number_def)
    next
      case (Cons c cs)
      show ?thesis
      proof (cases "c = CHR ''-''")
        case True
        with assms Cons *[where sign = "[CHR ''-'']" and ?s1.0 = cs] have "\<exists>n s2 f s3 e. parse_int cs = Some (n, s2)
          \<and> parse_frac s2 = Some (f, s3) \<and> parse_exp s3 = Some (e, r)"
          by (simp add: parse_number_def)
        then show ?thesis using Cons by - (rule exI[of _ cs], simp) 
      next
        case False
        with assms Cons *[where sign = "[]" and ?s1.0 = s] have "\<exists>n s2 f s3 e. parse_int s = Some (n, s2)
          \<and> parse_frac s2 = Some (f, s3) \<and> parse_exp s3 = Some (e, r)"
          by (simp add: parse_number_def)
        then show ?thesis by - (rule exI[of _ s], simp)
      qed
    qed
  qed
  then obtain s1 n s2 f s3 e where l1: "length s1 \<le> length s" and i: "parse_int s1 = Some (n, s2)"
    and f: "parse_frac s2 = Some (f, s3)" and e: "parse_exp s3 = Some (e, r)"
    by blast
  from parse_int_shorter[OF i] parse_frac_shorter[OF f] parse_exp_shorter[OF e] l1
  show ?thesis by simp
qed


declare parse_value.simps [simp del] parse_elements.simps [simp del] parse_members.simps [simp del]

lemma parse_value_shorter_step:
  assumes IHe: "\<And>t acc v r. length t < length s \<Longrightarrow> parse_elements t acc = Some (v, r) \<Longrightarrow> length r < length t"
    and IHm: "\<And>t acc v r. length t < length s \<Longrightarrow> parse_members t acc = Some (v, r) \<Longrightarrow> length r < length t"
    and p: "parse_value s = Some (v, r)"
  shows "length r < length s"
proof (cases "skip_ws s")
  case Nil
  with p show ?thesis by (subst (asm) parse_value.simps) simp
next
  case (Cons c cs)
  then have lcs: "length cs < length s" by (rule skip_ws_Cons_length)
  have le: "length (c # cs) \<le> length s" using skip_ws_length[of s] Cons by simp
  note eq = p[unfolded parse_value.simps[of s], unfolded Cons list.case]
  show ?thesis
  proof (cases "c = CHR ''{''")
    case True
    show ?thesis
    proof (cases "skip_ws cs")
      case Nil
      with eq True show ?thesis by simp
    next
      case c2: (Cons d r0)
      show ?thesis
      proof (cases "d = CHR ''}''")
        case True
        with eq \<open>c = CHR ''{''\<close> c2 have "r = r0" by simp
        with skip_ws_Cons_length[OF c2] lcs show ?thesis by simp
      next
        case False
        with eq \<open>c = CHR ''{''\<close> c2 have "parse_members cs [] = Some (v, r)" by simp
        from IHm[OF lcs this] lcs show ?thesis by simp
      qed
    qed
  next
    case nb: False
    show ?thesis
    proof (cases "c = CHR ''[''")
      case True
      show ?thesis
      proof (cases "skip_ws cs")
        case Nil
        with eq nb True show ?thesis by simp
      next
        case c2: (Cons d r0)
        show ?thesis
        proof (cases "d = CHR '']''")
          case cl: True
          with eq nb True c2 have "r = r0" by simp
          with skip_ws_Cons_length[OF c2] lcs show ?thesis by simp
        next
          case False
          with eq nb True c2 have "parse_elements cs [] = Some (v, r)" by simp
          from IHe[OF lcs this] lcs show ?thesis by simp
        qed
      qed
    next
      case na: False
      show ?thesis
      proof (cases "c = CHR 0x22")
        case True
        with eq nb na obtain str where "parse_string_chars cs [] = Some (str, r)"
          by (cases "parse_string_chars cs []") auto
        from parse_string_chars_shorter[OF this] lcs show ?thesis by simp
      next
        case nq: False
        show ?thesis
        proof (cases "prefix ''true'' (c # cs)")
          case True
          with eq nb na nq have "Some (JBool True, drop 4 (c # cs)) = Some (v, r)"
            by (simp only: if_True if_False)
          then have "r = drop 4 (c # cs)" by simp
          with le show ?thesis by simp
        next
          case nt: False
          show ?thesis
          proof (cases "prefix ''false'' (c # cs)")
            case True
            with eq nb na nq nt have "Some (JBool False, drop 5 (c # cs)) = Some (v, r)"
              by (simp only: if_True if_False)
            then have "r = drop 5 (c # cs)" by simp
            with le show ?thesis by simp
          next
            case nf: False
            show ?thesis
            proof (cases "prefix ''null'' (c # cs)")
              case True
              with eq nb na nq nt nf have "Some (JNull, drop 4 (c # cs)) = Some (v, r)"
                by (simp only: if_True if_False)
              then have "r = drop 4 (c # cs)" by simp
              with le show ?thesis by simp
            next
              case False
              with eq nb na nq nt nf
              have "(case parse_number (c # cs) of None \<Rightarrow> None
                     | Some (num, r) \<Rightarrow> Some (JNumber num, r)) = Some (v, r)"
                by (simp only: if_True if_False)
              then obtain num where "parse_number (c # cs) = Some (num, r)"
                by (cases "parse_number (c # cs)") auto
              from parse_number_shorter[OF this] le show ?thesis by simp
            qed
          qed
        qed
      qed
    qed
  qed
qed

lemma parse_elements_shorter_step:
  assumes V: "\<And>v r. parse_value s = Some (v, r) \<Longrightarrow> length r < length s"
    and IHe: "\<And>t acc v r. length t < length s \<Longrightarrow> parse_elements t acc = Some (v, r) \<Longrightarrow> length r < length t"
    and p: "parse_elements s acc = Some (v, r)"
  shows "length r < length s"
proof -
  note eq = p[unfolded parse_elements.simps[of s]]
  from eq obtain v0 r0 where pv: "parse_value s = Some (v0, r0)"
    by (cases "parse_value s") auto
  note eq1 = eq[unfolded pv option.case prod.case]
  from eq1 obtain d r' where sk: "skip_ws r0 = d # r'"
    by (cases "skip_ws r0") auto
  note eq2 = eq1[unfolded sk list.case]
  have l: "length r' < length s" using skip_ws_Cons_length[OF sk] V[OF pv] by simp
  show ?thesis
  proof (cases "d = CHR '',''")
    case True
    with eq2 l have "parse_elements r' (acc @ [v0]) = Some (v, r)" by simp
    from IHe[OF l this] l show ?thesis by simp
  next
    case False
    with eq2 have "r = r'" by (cases "d = CHR '']''") simp_all
    with l show ?thesis by simp
  qed
qed

lemma parse_members_shorter_step:
  assumes IHv: "\<And>t v r. length t < length s \<Longrightarrow> parse_value t = Some (v, r) \<Longrightarrow> length r < length t"
    and IHm: "\<And>t acc v r. length t < length s \<Longrightarrow> parse_members t acc = Some (v, r) \<Longrightarrow> length r < length t"
    and p: "parse_members s acc = Some (v, r)"
  shows "length r < length s"
proof -
  note eq = p[unfolded parse_members.simps[of s]]
  from eq obtain q cs where sk: "skip_ws s = q # cs"
    by (cases "skip_ws s") auto
  note eq1 = eq[unfolded sk list.case]
  from eq1 have q: "q = CHR 0x22" by (cases "q = CHR 0x22") simp_all
  from eq1 q obtain key r0 where ps: "parse_string_chars cs [] = Some (key, r0)"
    by (cases "parse_string_chars cs []") auto
  note eq2 = eq1[unfolded ps option.case prod.case]
  from eq2 q obtain colon r1 where sk1: "skip_ws r0 = colon # r1"
    by (cases "skip_ws r0") auto
  note eq3 = eq2[unfolded sk1 list.case]
  from eq3 q have c: "colon = CHR '':''" and l1: "length r1 < length s"
    by (cases "colon = CHR '':'' \<and> length r1 < length s"; simp)+
  from eq3 q c l1 obtain v0 r2 where pv: "parse_value r1 = Some (v0, r2)"
    by (cases "parse_value r1") auto
  note eq4 = eq3[unfolded pv option.case prod.case]
  from eq4 q c l1 obtain d r3 where sk2: "skip_ws r2 = d # r3"
    by (cases "skip_ws r2") auto
  note eq5 = eq4[unfolded sk2 list.case]
  have l3: "length r3 < length s"
    using skip_ws_Cons_length[OF sk2] IHv[OF l1 pv] l1 by simp
  show ?thesis
  proof (cases "d = CHR '',''")
    case True
    with eq5 q c l1 l3 have "parse_members r3 (acc @ [(key, v0)]) = Some (v, r)" by simp
    from IHm[OF l3 this] l3 show ?thesis by simp
  next
    case False
    with eq5 q c l1 have "r = r3" by (cases "d = CHR ''}''") simp_all
    with l3 show ?thesis by simp
  qed
qed

lemma parse_shorter_all:
  "(\<forall>v r. parse_value s = Some (v, r) \<longrightarrow> length r < length s)
   \<and> (\<forall>acc v r. parse_elements s acc = Some (v, r) \<longrightarrow> length r < length s)
   \<and> (\<forall>acc v r. parse_members s acc = Some (v, r) \<longrightarrow> length r < length s)"
proof (induction "length s" arbitrary: s rule: less_induct)
  case less
  have IHv: "length r < length t" if "length t < length s" "parse_value t = Some (v, r)" for t v r
    using less.hyps[OF that(1)] that(2) by blast
  have IHe: "length r < length t" if "length t < length s" "parse_elements t acc = Some (v, r)"
    for t acc v r
    using less.hyps[OF that(1)] that(2) by blast
  have IHm: "length r < length t" if "length t < length s" "parse_members t acc = Some (v, r)"
    for t acc v r
    using less.hyps[OF that(1)] that(2) by blast
  have V: "length r < length s" if "parse_value s = Some (v, r)" for v r
    using parse_value_shorter_step[OF IHe IHm that] .
  have E: "length r < length s" if "parse_elements s acc = Some (v, r)" for acc v r
    using parse_elements_shorter_step[OF V IHe that] .
  have M: "length r < length s" if "parse_members s acc = Some (v, r)" for acc v r
    using parse_members_shorter_step[OF IHv IHm that] .
  from V E M show ?case by blast
qed

lemma parse_value_shorter: "parse_value s = Some (v, r) \<Longrightarrow> length r < length s"
  using parse_shorter_all[of s] by blast

lemma parse_elements_unguarded:
  "parse_elements s acc =
     (case parse_value s of
        None \<Rightarrow> None
      | Some (v, r) \<Rightarrow>
          (case skip_ws r of
             [] \<Rightarrow> None
           | d # r' \<Rightarrow>
               if d = CHR '','' then parse_elements r' (acc @ [v])
               else if d = CHR '']'' then Some (JArray (acc @ [v]), r')
               else None))"
proof (cases "parse_value s")
  case None
  then show ?thesis by (subst parse_elements.simps) simp
next
  case (Some a)
  obtain v r where a: "a = (v, r)" by (cases a)
  show ?thesis
  proof (cases "skip_ws r")
    case Nil
    with Some a show ?thesis by (subst parse_elements.simps) simp
  next
    case (Cons d r')
    have "length r' < length s"
      using skip_ws_Cons_length[OF Cons] parse_value_shorter[of s v r] Some a by simp
    with Some a Cons show ?thesis by (subst parse_elements.simps) simp
  qed
qed

lemma parse_members_unguarded:
  "parse_members s acc =
     (case skip_ws s of
        [] \<Rightarrow> None
      | q # cs \<Rightarrow>
          if q = CHR 0x22 then
            (case parse_string_chars cs [] of
               None \<Rightarrow> None
             | Some (key, r) \<Rightarrow>
                 (case skip_ws r of
                    [] \<Rightarrow> None
                  | colon # r1 \<Rightarrow>
                      if colon = CHR '':'' then
                        (case parse_value r1 of
                           None \<Rightarrow> None
                         | Some (v, r2) \<Rightarrow>
                             (case skip_ws r2 of
                                [] \<Rightarrow> None
                              | d # r3 \<Rightarrow>
                                  if d = CHR '','' then parse_members r3 (acc @ [(key, v)])
                                  else if d = CHR ''}'' then Some (JObject (acc @ [(key, v)]), r3)
                                  else None))
                      else None))
          else None)"
proof (cases "skip_ws s")
  case Nil
  then show ?thesis by (subst parse_members.simps) simp
next
  case c0: (Cons q cs)
  show ?thesis
  proof (cases "parse_string_chars cs []")
    case None
    with c0 show ?thesis by (subst parse_members.simps) simp
  next
    case (Some a)
    obtain key r where a: "a = (key, r)" by (cases a)
    have lr: "length r < length s"
      using parse_string_chars_shorter[of cs "[]" key r] Some a skip_ws_Cons_length[OF c0] by simp
    show ?thesis
    proof (cases "skip_ws r")
      case Nil
      with c0 Some a show ?thesis by (subst parse_members.simps) simp
    next
      case c1: (Cons colon r1)
      have l1: "length r1 < length s" using skip_ws_Cons_length[OF c1] lr by simp
      show ?thesis
      proof (cases "parse_value r1")
        case None
        with c0 Some a c1 show ?thesis by (subst parse_members.simps) simp
      next
        case s2: (Some b)
        obtain v r2 where b: "b = (v, r2)" by (cases b)
        show ?thesis
        proof (cases "skip_ws r2")
          case Nil
          with c0 Some a c1 s2 b show ?thesis by (subst parse_members.simps) simp
        next
          case c2: (Cons d r3)
          have "length r3 < length s"
            using skip_ws_Cons_length[OF c2] parse_value_shorter[of r1 v r2] s2 b l1 by simp
          with c0 Some a c1 s2 b c2 l1 show ?thesis by (subst parse_members.simps) simp
        qed
      qed
    qed
  qed
qed

end
